theory Spec2Isabelle
  imports Complex_Main "HOL-Library.Word" "HOL-Library.Multiset"
begin


section \<open>Rung time-steps: sph/ts_rungs.hpp\<close>

text \<open>
  The scheduler works on \<open>float\<close> values. A finite \<open>float\<close> is modelled as the real
  number it denotes, and the arrays hold finite values. Sorting, the search and the
  minimum reduction only compare values, which is exact. Where the source computes a new
  \<open>float\<close> the model rounds as IEEE 754 does, to the nearest value of the format, ties
  to even (\<open>round32\<close>): the quotient \<open>refDt / minDt\<close> and the product
  \<open>fastFraction * numGroups\<close>. A quotient that is not a finite \<open>float\<close> (division by
  zero, overflow) has no value in the model. The product \<open>(1 << rung) * minDt\<close> is a
  multiplication of a \<open>float\<close> by a power of two and is exact; should it overflow, the
  \<open>float\<close> is \<open>+inf\<close>, which compares with every finite element as the real product
  does. The \<open>log2\<close> of the mathematical library is a parameter of the model.

  Only the device branch (\<open>IsDeviceVector<AccVec>\<close>) of \<open>computeRungTimestep\<close> is
  modelled: on the other branch \<open>minGroupDt\<close> is read without having been written.
\<close>

subsection \<open>Floating-point rounding\<close>

text \<open>
  Rounding of a real number to the nearest integer, ties to the even one, and to the
  nearest number of a binary floating-point format with \<open>prec\<close> significant bits and
  least exponent \<open>emin\<close> (below \<open>2^emin\<close> the spacing stays that of the subnormal
  numbers). \<open>float\<close> has 24 bits and least exponent -126, \<open>double\<close> has 53 bits and
  least exponent -1022. The largest finite \<open>float\<close> is below \<open>2^128\<close>; a value that
  rounds to \<open>2^128\<close> or beyond is an infinity in the source.
\<close>

definition roundHalfEven :: "real \<Rightarrow> int" where
  "roundHalfEven v =
     (let f = \<lfloor>v\<rfloor>
      in if v - of_int f < 1 / 2 then f
         else if 1 / 2 < v - of_int f then f + 1
         else if even f then f else f + 1)"

definition roundFloat :: "nat \<Rightarrow> int \<Rightarrow> real \<Rightarrow> real" where
  "roundFloat prec emin v =
     (if v = 0 then 0
      else let e = max \<lfloor>log 2 \<bar>v\<bar>\<rfloor> emin;
               ulp = 2 powr of_int (e - (int prec - 1))
           in of_int (roundHalfEven (v / ulp)) * ulp)"

definition round32 :: "real \<Rightarrow> real" where
  "round32 v = roundFloat 24 (- 126) v"

definition round64 :: "real \<Rightarrow> real" where
  "round64 v = roundFloat 53 (- 1022) v"

text \<open>
  \<open>a / b\<close> on two finite \<open>float\<close> values: the rounded quotient when that is a finite
  \<open>float\<close>, and no value when the source has an infinity or NaN.
\<close>

definition floatQuotient :: "real \<Rightarrow> real \<Rightarrow> real option" where
  "floatQuotient a b =
     (if b = 0 then None
      else let q = round32 (a / b) in if \<bar>q\<bar> < 2 ^ 128 then Some q else None)"

subsection \<open>Data\<close>

text \<open>
  Modelled from the spec: \<open>Timestep\<close> is declared in sph/timestep.h, which is not among
  the sources. The spec (section 3) gives its fields, the ones \<open>computeRungTimestep\<close>
  initialises: \<open>minDt\<close>, \<open>numRungs\<close>, \<open>substep\<close>, \<open>rungRanges\<close> and the per-rung
  \<open>dt_drift\<close>. \<open>Timestep::maxNumRungs\<close> is a constant of that header and is a parameter
  \<open>maxNumRungs\<close> of the model; \<open>rungRanges\<close> has \<open>maxNumRungs + 1\<close> entries in the
  source, \<open>dt_drift\<close> has \<open>maxNumRungs\<close> in the model.
\<close>

record Timestep =
  minDt :: real
  numRungs :: int
  substep :: int
  rungRanges :: "nat list"
  dt_drift :: "real list"

subsection \<open>Primitives of cstone used by the scheduler\<close>

text \<open>
  Modelled from the spec: \<open>cstone::sequenceGpu(p, n, init)\<close> is not among the sources. It
  writes \<open>init, init + 1, ...\<close> to \<open>n\<close> slots: the explicit index array of the index sort
  (spec, section 9).
\<close>

definition sequenceGpu :: "nat \<Rightarrow> nat \<Rightarrow> nat list" where
  "sequenceGpu n init = [init..<init + n]"

text \<open>
  Modelled from the spec: \<open>cstone::sortByKeyGpu\<close> (cstone/primitives/primitives_gpu.h) is
  not among the sources. The spec (4.1, step 1) has a stable sort of the groups by
  \<open>perGroupDt\<close> ascending that carries the group indices along; \<open>sort_key\<close> is the stable
  insertion sort of the HOL library.
\<close>

definition sortByKeyGpu :: "real list \<Rightarrow> nat list \<Rightarrow> real list \<times> nat list" where
  "sortByKeyGpu keys vals =
     (let kv = sort_key fst (zip keys vals) in (map fst kv, map snd kv))"

text \<open>
  Modelled from the spec: \<open>cstone::lowerBoundGpu(first, last, value)\<close> is not among the
  sources. The spec (4.1, step 4) has a binary search of the sorted array for "the first
  index whose value exceeds" the threshold, and this is what the loop below finds: it
  halves the range \<open>[first, first + cnt)\<close> and moves right while the element in the
  middle does not exceed \<open>v\<close>. (The function carries the name of \<open>std::lower_bound\<close>,
  which stops at the first element that is not less than the threshold; the two differ
  on elements equal to the threshold only.)
\<close>

function lowerBoundLoop :: "real list \<Rightarrow> real \<Rightarrow> nat \<Rightarrow> nat \<Rightarrow> nat" where
  "lowerBoundLoop xs v first cnt =
     (if 0 < cnt
      then let step = cnt div 2; it = first + step
           in if \<not> v < xs ! it
              then lowerBoundLoop xs v (it + 1) (cnt - (step + 1))
              else lowerBoundLoop xs v first step
      else first)"
  by pat_completeness auto
termination
  by (relation "measure (\<lambda>(xs, v, first, cnt). cnt)") auto

definition lowerBoundGpu :: "real list \<Rightarrow> real \<Rightarrow> nat" where
  "lowerBoundGpu xs v = lowerBoundLoop xs v 0 (length xs)"

text \<open>
  Modelled from the spec: \<open>memcpyD2H(src + i, 1, dst)\<close> is not among the sources; it is
  one of the transfer primitives of the spec (section 1) and copies one element of the
  device array to the host. Outside the array there is no value.
\<close>

definition memcpyD2H :: "real list \<Rightarrow> nat \<Rightarrow> real option" where
  "memcpyD2H src i = (if i < length src then Some (src ! i) else None)"

text \<open>
  Modelled from the spec: \<open>mpiAllreduce(send, recv, 2, MPI_MIN)\<close> is not among the
  sources. It is the collective reduction of the spec (section 6) with the operation
  MIN, delivered to all: the element-wise minimum over the contributions of all workers,
  the caller's own (\<open>mine\<close>) and those of its peers; every worker receives the same
  result.
\<close>

definition mpiAllreduceMin :: "real \<times> real \<Rightarrow> (real \<times> real) list \<Rightarrow> real \<times> real" where
  "mpiAllreduceMin mine others =
     fold (\<lambda>other acc. (min (fst other) (fst acc), min (snd other) (snd acc))) others mine"

subsection \<open>The functions of ts_rungs.hpp\<close>

text \<open>
  \<open>sortGroupDt\<close>: \<open>groupIndices\<close> becomes \<open>0, 1, ...\<close> and is sorted along with
  \<open>groupDt\<close>. The scratch buffer is resized and restored and holds nothing afterwards.
  Returns the new \<open>groupDt\<close> and \<open>groupIndices\<close>.
\<close>

definition sortGroupDt :: "real list \<Rightarrow> nat \<Rightarrow> real list \<times> nat list" where
  "sortGroupDt groupDt numGroups = sortByKeyGpu groupDt (sequenceGpu numGroups 0)"

text \<open>
  \<open>timestepRangeGpu\<close>: element 0 and element \<open>LocalIndex(fastFraction * numGroups)\<close> of
  the sorted array. \<open>numGroups\<close> is converted to \<open>float\<close>, the product is a \<open>float\<close>,
  and the conversion to the unsigned index truncates it; the product is not negative, so
  truncation is \<open>floor\<close>.
\<close>

definition timestepRangeGpu :: "real list \<Rightarrow> nat \<Rightarrow> real \<Rightarrow> (real \<times> real) option" where
  "timestepRangeGpu groupDt numGroups fastFraction =
     (case memcpyD2H groupDt 0 of
        None \<Rightarrow> None
      | Some lo \<Rightarrow>
          (case memcpyD2H groupDt (nat \<lfloor>round32 (fastFraction * round32 (real numGroups))\<rfloor>) of
             None \<Rightarrow> None
           | Some hi \<Rightarrow> Some (lo, hi)))"

text \<open>
  \<open>int(log2(refDt / minDt))\<close>. The quotient is a \<open>float\<close>. The conversion to \<open>int\<close>
  truncates towards zero when the truncated value is an \<open>int\<close>. Otherwise, and for an
  infinity or NaN, C++ leaves the conversion undefined; the model returns what the
  conversion instruction of x86-64 delivers in that case, the "integer indefinite"
  value \<open>INT_MIN\<close>. An infinity or NaN reaches the conversion when the quotient is one
  (\<open>log2\<close> of \<open>+inf\<close> is \<open>+inf\<close>, of anything else NaN), or when the quotient is zero or
  negative (\<open>log2\<close> is \<open>-inf\<close> or NaN). On a positive finite quotient the result of
  \<open>log2\<close> is that of the parameter \<open>log2\<close>.
\<close>

definition truncToInt :: "real \<Rightarrow> int" where
  "truncToInt v = (if 0 \<le> v then \<lfloor>v\<rfloor> else \<lceil>v\<rceil>)"

definition intIndefinite :: int where
  "intIndefinite = - (2 ^ 31)"

definition floatToInt :: "real \<Rightarrow> int" where
  "floatToInt v =
     (let t = truncToInt v in if - (2 ^ 31) \<le> t \<and> t < 2 ^ 31 then t else intIndefinite)"

definition intLog2Ratio :: "(real \<Rightarrow> real) \<Rightarrow> real \<Rightarrow> real \<Rightarrow> int" where
  "intLog2Ratio log2 refDt mDt =
     (case floatQuotient refDt mDt of
        None \<Rightarrow> intIndefinite
      | Some q \<Rightarrow> if 0 < q then floatToInt (log2 q) else intIndefinite)"

text \<open>\<open>a + b\<close> on 32-bit \<open>int\<close>, with the wrap-around of the machine.\<close>

definition intAdd :: "int \<Rightarrow> int \<Rightarrow> int" where
  "intAdd a b = sint (word_of_int a + word_of_int b :: 32 word)"

text \<open>\<open>1 << rung\<close> on a 32-bit \<open>int\<close>: a power of two for \<open>rung < 31\<close>.\<close>

definition shl1 :: "nat \<Rightarrow> int" where
  "shl1 rung = sint (push_bit rung (1 :: 32 word))"

text \<open>The loop \<open>for (rung = 1; rung < numRungs; ++rung)\<close> over the array \<open>rungRanges\<close>.\<close>

definition rungLoop :: "real list \<Rightarrow> real \<Rightarrow> int \<Rightarrow> nat list \<Rightarrow> nat list" where
  "rungLoop groupDt mDt nRungs ranges =
     fold (\<lambda>rung rr. rr[rung := lowerBoundGpu groupDt (real_of_int (shl1 rung) * mDt)])
          [1..<nat nRungs] ranges"

text \<open>
  What one worker contributes to the reduction: it sorts its array and reads the two
  elements. Every worker runs the same code, so this is also what each peer sends. The
  argument 0.4 is a \<open>double\<close> literal converted to the \<open>float\<close> parameter.
\<close>

definition localRange :: "real list \<Rightarrow> (real \<times> real) option" where
  "localRange groupDt =
     timestepRangeGpu (fst (sortGroupDt groupDt (length groupDt))) (length groupDt)
       (round32 (round64 (4 / 10)))"

text \<open>
  \<open>computeRungTimestep\<close> on one worker. \<open>groupDt\<close> is the worker's array with
  \<open>grp.numGroups = length groupDt\<close> elements, \<open>peers\<close> are the arrays of the other
  workers taking part in the reduction. The result is the \<open>Timestep\<close> together with the
  arrays \<open>groupDt\<close> and \<open>groupIndices\<close> as the call leaves them; there is none when a
  worker reads outside its array.
\<close>

definition computeRungTimestep ::
  "(real \<Rightarrow> real) \<Rightarrow> nat \<Rightarrow> real list \<Rightarrow> real list list
   \<Rightarrow> (Timestep \<times> real list \<times> nat list) option" where
  "computeRungTimestep log2 maxNumRungs groupDt peers =
     (let numGroups = length groupDt;
          sorted_state = sortGroupDt groupDt numGroups;
          groupDt' = fst sorted_state
      in case timestepRangeGpu groupDt' numGroups (round32 (round64 (4 / 10))) of
           None \<Rightarrow> None
         | Some minGroupDt \<Rightarrow>
             (case those (map localRange peers) of
                None \<Rightarrow> None
              | Some others \<Rightarrow>
                  (let minDtGlobal = mpiAllreduceMin minGroupDt others;
                       nRungs = min (intAdd (intLog2Ratio log2 (snd minDtGlobal) (fst minDtGlobal)) 1)
                                    (int maxNumRungs);
                       ranges = rungLoop groupDt' (fst minDtGlobal) nRungs
                                  (0 # replicate maxNumRungs numGroups)
                   in Some (\<lparr>minDt = fst minDtGlobal, numRungs = nRungs, substep = 0,
                              rungRanges = ranges,
                              dt_drift = replicate maxNumRungs 0\<rparr>,
                            groupDt', snd sorted_state))))"


subsection \<open>Notions used to state the properties\<close>

text \<open>
  The pair \<open>minDtGlobal\<close> that the reduction in \<open>computeRungTimestep\<close> delivers: the
  global minimum time-step and the reduced fast-fraction reference. \<open>None\<close> when some
  worker cannot produce its contribution.
\<close>

definition reducedRange :: "real list \<Rightarrow> real list list \<Rightarrow> (real \<times> real) option" where
  "reducedRange groupDt peers =
     (case localRange groupDt of
        None \<Rightarrow> None
      | Some mine \<Rightarrow>
          (case those (map localRange peers) of
             None \<Rightarrow> None
           | Some others \<Rightarrow> Some (mpiAllreduceMin mine others)))"

text \<open>
  The fast-fraction index of a worker with \<open>n\<close> groups, as the \<open>float\<close> arithmetic of
  \<open>timestepRangeGpu\<close> delivers it, and the element of the worker's sorted array there.
\<close>

definition fastIndex :: "nat \<Rightarrow> nat" where
  "fastIndex n = nat \<lfloor>round32 (round32 (round64 (4 / 10)) * round32 (real n))\<rfloor>"

definition fastRef :: "real list \<Rightarrow> real" where
  "fastRef g = sort g ! fastIndex (length g)"

text \<open>
  The first index of an array whose value exceeds \<open>v\<close>, by a scan from the left; the
  length of the array when there is none.
\<close>

definition firstIndexExceeding :: "real list \<Rightarrow> real \<Rightarrow> nat" where
  "firstIndexExceeding xs v = length (takeWhile (\<lambda>e. \<not> v < e) xs)"

text \<open>The array \<open>groupDt\<close> of a worker after it has run \<open>computeRungTimestep\<close>.\<close>

definition groupDtAfter :: "real list \<Rightarrow> real list" where
  "groupDtAfter groupDt = fst (sortGroupDt groupDt (length groupDt))"

section \<open>Momentum of the square patch: \<open>MomentumSquarePatch::compute\<close>\<close>

text \<open>
  The class is instantiated with \<open>T = double\<close>, modelled as the reals, and with
  \<open>std::vector\<close> arrays, modelled as lists and indexed by \<open>int\<close>. The kernel functions
  \<open>artificial_viscosity\<close> and \<open>wharmonic_derivative\<close> come from headers that are not among
  the sources and are parameters of the model. \<open>exp\<close>, \<open>sqrt\<close> and \<open>abs\<close> are the
  functions of the reals; \<open>pow\<close> is only applied to a product of two exponentials.
\<close>

subsection \<open>Data\<close>

record Params =
  K :: real
  delta_x_i :: real
  A_i :: real
  ep1 :: real
  ep2 :: real
  mre :: real
  init_timesteps :: int

text \<open>The members of the class: the arrays and \<open>iteration\<close> are references to the caller's.\<close>

record MomentumSquarePatch =
  x :: "real list"
  y :: "real list"
  z :: "real list"
  h :: "real list"
  vx :: "real list"
  vy :: "real list"
  vz :: "real list"
  ro :: "real list"
  p :: "real list"
  c :: "real list"
  m :: "real list"
  iteration :: int
  neighbors :: "int list list"
  grad_P_x :: "real list"
  grad_P_y :: "real list"
  grad_P_z :: "real list"
  params :: Params

record Kernels =
  artificial_viscosity :: "real \<Rightarrow> real \<Rightarrow> real \<Rightarrow> real \<Rightarrow> real \<Rightarrow> real \<Rightarrow> real \<Rightarrow> real \<Rightarrow> real"
  wharmonic_derivative :: "real \<Rightarrow> real \<Rightarrow> real \<Rightarrow> real"

definition gradh_i :: real where
  "gradh_i = 1"

definition gradh_j :: real where
  "gradh_j = 1"

definition pow :: "real \<Rightarrow> real \<Rightarrow> real" where
  "pow b e = b powr e"

text \<open>\<open>v[i]\<close> for an \<open>int\<close> index: defined inside the vector only.\<close>

definition inside :: "int \<Rightarrow> 'a list \<Rightarrow> bool" where
  "inside i v = (0 \<le> i \<and> nat i < length v)"

definition elem :: "'a list \<Rightarrow> int \<Rightarrow> 'a" where
  "elem v i = v ! nat i"

text \<open>The arrays that the body of the loop reads at the neighbour \<open>nid\<close>, and at \<open>i\<close>.\<close>

definition neighborInside :: "MomentumSquarePatch \<Rightarrow> int \<Rightarrow> int \<Rightarrow> bool" where
  "neighborInside s i nid =
     (inside nid (ro s) \<and> inside nid (p s) \<and> inside nid (x s) \<and> inside nid (y s)
      \<and> inside nid (z s) \<and> inside nid (h s) \<and> inside nid (m s) \<and> inside nid (vx s)
      \<and> inside nid (vy s) \<and> inside nid (vz s) \<and> inside nid (c s) \<and> inside i (c s))"

subsection \<open>\<open>compute\<close>\<close>

text \<open>
  The body of the loop over the neighbours for one neighbour \<open>nid \<noteq> i\<close>: the three
  terms added to \<open>momentum_x\<close>, \<open>momentum_y\<close> and \<open>momentum_z\<close>. The bindings follow the
  statements of the source in their order; a variable assigned twice is bound twice.
\<close>

definition neighborTerm ::
  "Kernels \<Rightarrow> MomentumSquarePatch \<Rightarrow> int \<Rightarrow> int \<Rightarrow> real \<times> real \<times> real" where
  "neighborTerm kn s i nid =
     (let K = K (params s);
          ro_i = elem (ro s) i;
          p_i = elem (p s) i;
          x_i = elem (x s) i;
          y_i = elem (y s) i;
          z_i = elem (z s) i;
          vx_i = elem (vx s) i;
          vy_i = elem (vy s) i;
          vz_i = elem (vz s) i;
          h_i = elem (h s) i;
          delta_x_i = delta_x_i (params s);
          A_i = A_i (params s);
          ep1 = ep1 (params s);
          ep2 = ep2 (params s);
          mre = mre (params s);
          init_timesteps = init_timesteps (params s);
          A_i = (if p_i < 0 then 1 else A_i);
          ro_j = elem (ro s) nid;
          p_j = elem (p s) nid;
          x_j = elem (x s) nid;
          y_j = elem (y s) nid;
          z_j = elem (z s) nid;
          h_j = elem (h s) nid;
          m_j = elem (m s) nid;
          r_ijx = x_i - x_j;
          r_ijy = y_i - y_j;
          r_ijz = z_i - z_j;
          v_ijx = vx_i - elem (vx s) nid;
          v_ijy = vy_i - elem (vy s) nid;
          v_ijz = vz_i - elem (vz s) nid;
          rv = r_ijx * v_ijx + r_ijy * v_ijy + r_ijz * v_ijz;
          r_square = (r_ijx * r_ijx) + (r_ijy * r_ijy) + (r_ijz * r_ijz);
          viscosity_ij = artificial_viscosity kn ro_i ro_j (elem (h s) i) (elem (h s) nid)
                           (elem (c s) i) (elem (c s) nid) rv r_square;
          r_ij = sqrt r_square;
          v_i = r_ij / h_i;
          v_j = r_ij / h_j;
          derivative_kernel_i = wharmonic_derivative kn v_i h_i K;
          derivative_kernel_j = wharmonic_derivative kn v_j h_j K;
          grad_v_kernel_x_i = r_ijx * derivative_kernel_i;
          grad_v_kernel_x_j = r_ijx * derivative_kernel_j;
          grad_v_kernel_y_i = r_ijy * derivative_kernel_i;
          grad_v_kernel_y_j = r_ijy * derivative_kernel_j;
          grad_v_kernel_z_i = r_ijz * derivative_kernel_i;
          grad_v_kernel_z_j = r_ijz * derivative_kernel_j;
          grad_v_kernel_x_i_j = (grad_v_kernel_x_i + grad_v_kernel_x_j) / 2;
          grad_v_kernel_y_i_j = (grad_v_kernel_y_i + grad_v_kernel_y_j) / 2;
          grad_v_kernel_z_i_j = (grad_v_kernel_z_i + grad_v_kernel_z_j) / 2;
          force_i_j_r = (0 :: real);
          force_i_j_r = exp (- (v_i * v_i)) * exp (delta_x_i / (h_i * h_i));
          A_j = (0 :: real);
          A_j = (if p_j < 0 then 1 else A_j);
          delta_pos_i_j = (0 :: real);
          delta_pos_i_j = (if 0 < p_i \<and> 0 < p_j then 1 else delta_pos_i_j);
          R_i_j = ep1 * (A_i * \<bar>p_i\<bar> + A_j * \<bar>p_j\<bar>) + ep2 * delta_pos_i_j * (\<bar>p_i\<bar> + \<bar>p_j\<bar>);
          r_force_i_j = R_i_j * pow force_i_j_r mre;
          partial_repulsive_force = (r_force_i_j / (ro_i * ro_j)) * m_j;
          repulsive_force_x = partial_repulsive_force * grad_v_kernel_x_i_j;
          repulsive_force_y = partial_repulsive_force * grad_v_kernel_y_i_j;
          repulsive_force_z = partial_repulsive_force * grad_v_kernel_z_i_j;
          force_i_j_r = (if iteration s < init_timesteps then 0 else force_i_j_r)
      in ((p_i / (gradh_i * ro_i * ro_i) * grad_v_kernel_x_i)
            + (p_j / (gradh_j * ro_j * ro_j) * grad_v_kernel_x_j)
            + viscosity_ij * grad_v_kernel_x_i_j + repulsive_force_x,
          (p_i / (gradh_i * ro_i * ro_i) * grad_v_kernel_y_i)
            + (p_j / (gradh_j * ro_j * ro_j) * grad_v_kernel_y_j)
            + viscosity_ij * grad_v_kernel_y_i_j + repulsive_force_y,
          (p_i / (gradh_i * ro_i * ro_i) * grad_v_kernel_z_i)
            + (p_j / (gradh_j * ro_j * ro_j) * grad_v_kernel_z_j)
            + viscosity_ij * grad_v_kernel_z_i_j + repulsive_force_z))"

text \<open>
  The loop \<open>for (j = 0; j < neighbors[i].size(); j++)\<close> over the neighbour list, with the
  three accumulators; a neighbour equal to \<open>i\<close> is skipped.
\<close>

fun neighborLoop ::
  "Kernels \<Rightarrow> MomentumSquarePatch \<Rightarrow> int \<Rightarrow> int list \<Rightarrow> real \<times> real \<times> real
   \<Rightarrow> (real \<times> real \<times> real) option" where
  "neighborLoop kn s i [] momentum = Some momentum"
| "neighborLoop kn s i (nid # nids) momentum =
     (if nid = i then neighborLoop kn s i nids momentum
      else if neighborInside s i nid
      then (case (momentum, neighborTerm kn s i nid) of
              ((momentum_x, momentum_y, momentum_z), (tx, ty, tz)) \<Rightarrow>
                neighborLoop kn s i nids (momentum_x + tx, momentum_y + ty, momentum_z + tz))
      else None)"

text \<open>\<open>compute(i)\<close>: the new state of the object, or \<open>None\<close> for an access outside an array.\<close>

definition compute :: "Kernels \<Rightarrow> MomentumSquarePatch \<Rightarrow> int \<Rightarrow> MomentumSquarePatch option" where
  "compute kn s i =
     (if inside i (ro s) \<and> inside i (p s) \<and> inside i (x s) \<and> inside i (y s) \<and> inside i (z s)
         \<and> inside i (vx s) \<and> inside i (vy s) \<and> inside i (vz s) \<and> inside i (h s)
         \<and> inside i (neighbors s) \<and> inside i (m s)
         \<and> inside i (grad_P_x s) \<and> inside i (grad_P_y s) \<and> inside i (grad_P_z s)
      then (case neighborLoop kn s i (elem (neighbors s) i) (0, 0, 0) of
              None \<Rightarrow> None
            | Some (momentum_x, momentum_y, momentum_z) \<Rightarrow>
                Some (s\<lparr>grad_P_x := (grad_P_x s)[nat i := momentum_x * elem (m s) i],
                        grad_P_y := (grad_P_y s)[nat i := momentum_y * elem (m s) i],
                        grad_P_z := (grad_P_z s)[nat i := momentum_z * elem (m s) i]\<rparr>))
      else None)"

text \<open>The three arrays that \<open>compute\<close> writes.\<close>

definition gradP :: "MomentumSquarePatch \<Rightarrow> real list \<times> real list \<times> real list" where
  "gradP s = (grad_P_x s, grad_P_y s, grad_P_z s)"

section \<open>The N-body propagator: \<open>NbodyProp::step\<close>\<close>

text \<open>
  \<open>step\<close> runs on every worker (rank). The domain, the particle data and the multipole
  holder are classes of other files; the model keeps the fields of the particle data
  that \<open>step\<close> and \<open>computeDensity\<close> read and write, on the host (the build without an accelerator, where
  \<open>transferToHost\<close> does nothing and \<open>get<"m">(d)\<close> is \<open>d.m\<close>). Masses and
  accelerations are real numbers: \<open>step\<close> copies them and sets them to zero. The energy
  \<open>egrav\<close> is a \<open>double\<close>, modelled as the real number it denotes; the addition of two
  \<open>double\<close> values, which rounds, is a parameter of the reduction. The counters of
  \<open>readStats\<close> are 64-bit words.
\<close>

subsection \<open>Data\<close>

text \<open>
  Modelled from the spec: the particle data (sph/particles_data.hpp) and the domain of
  cstone are not among the sources. The spec (section 3) has per-particle arrays of
  mass, density and acceleration; \<open>egrav\<close> is the potential energy that \<open>step\<close> reduces.
\<close>

record ParticlesData =
  m :: "real list"
  xm :: "real list"
  rho :: "real list"
  ax :: "real list"
  ay :: "real list"
  az :: "real list"
  egrav :: real

text \<open>
  What \<open>step\<close> asks the domain after \<open>sync\<close>: the number of particles with halos and
  the owned range \<open>[startIndex, endIndex)\<close>.
\<close>

record Domain =
  nParticlesWithHalos :: nat
  startIndex :: nat
  endIndex :: nat

type_synonym stats = "64 word list"

subsection \<open>Primitives\<close>

text \<open>
  Modelled from the spec: \<open>d.resize(n)\<close> (sph/particles_data.hpp) is not among the
  sources. The spec (4.3, step 2) has it grow the per-particle arrays to the
  halo-inclusive length; as for \<open>std::vector::resize\<close>, the elements that exist are kept
  and new ones are zero.
\<close>

definition resizeVector :: "real list \<Rightarrow> nat \<Rightarrow> real list" where
  "resizeVector v n = take n v @ replicate (n - length v) 0"

definition resize :: "ParticlesData \<Rightarrow> nat \<Rightarrow> ParticlesData" where
  "resize d n = d\<lparr>m := resizeVector (m d) n, xm := resizeVector (xm d) n,
                  rho := resizeVector (rho d) n, ax := resizeVector (ax d) n,
                  ay := resizeVector (ay d) n, az := resizeVector (az d) n\<rparr>"

text \<open>
  Modelled from the spec: \<open>fill(v, first, last, value)\<close> of cstone is not among the
  sources. The spec (4.3, steps 2 and 3) has it write \<open>value\<close> to the slots
  \<open>first, ..., last - 1\<close> of \<open>v\<close>. A range that is not inside the array is an error.
\<close>

definition fill :: "real list \<Rightarrow> nat \<Rightarrow> nat \<Rightarrow> real \<Rightarrow> real list option" where
  "fill v first lastIdx val =
     (if first \<le> lastIdx \<and> lastIdx \<le> length v
      then Some (take first v @ replicate (lastIdx - first) val @ drop lastIdx v)
      else None)"

text \<open>\<open>v[i]\<close> on a \<open>std::vector\<close>: there is no value outside the vector.\<close>

definition readAt :: "real list \<Rightarrow> nat \<Rightarrow> real option" where
  "readAt v i = (if i < length v then Some (v ! i) else None)"

text \<open>
  \<open>MPI_Reduce(send, recv, 1, type, op, root, comm)\<close>: \<open>sends\<close> holds the send buffers of
  all ranks, in rank order. The root's receive buffer becomes the combination of all of
  them by \<open>op\<close>; the receive buffer of any other rank is left as it was. MPI leaves the
  order of the combination to the library, which may use that a predefined operation is
  associative and commutative. The order is a parameter of the model: a binary tree
  (\<open>reduction\<close>) with the ranks at its leaves, which \<open>covers\<close> the \<open>n\<close> ranks when each
  of them is a leaf exactly once.
\<close>

datatype reduction = Rank nat | Combine reduction reduction

fun ranks :: "reduction \<Rightarrow> nat list" where
  "ranks (Rank i) = [i]"
| "ranks (Combine l r) = ranks l @ ranks r"

definition covers :: "reduction \<Rightarrow> nat \<Rightarrow> bool" where
  "covers order n = (sort (ranks order) = [0..<n])"

fun reduce :: "('a \<Rightarrow> 'a \<Rightarrow> 'a) \<Rightarrow> 'a list \<Rightarrow> reduction \<Rightarrow> 'a" where
  "reduce op sends (Rank i) = sends ! i"
| "reduce op sends (Combine l r) = op (reduce op sends l) (reduce op sends r)"

definition MPI_Reduce ::
  "('a \<Rightarrow> 'a \<Rightarrow> 'a) \<Rightarrow> reduction \<Rightarrow> 'a list \<Rightarrow> nat \<Rightarrow> nat \<Rightarrow> 'b \<Rightarrow> ('a \<Rightarrow> 'b) \<Rightarrow> 'b" where
  "MPI_Reduce op order sends rootIdx rank recv store =
     (if rank = rootIdx then store (reduce op sends order) else recv)"

text \<open>
  None of the additions of a reduction rounds: each delivers the sum of its two
  arguments.
\<close>

fun exactAdditions :: "(real \<Rightarrow> real \<Rightarrow> real) \<Rightarrow> real list \<Rightarrow> reduction \<Rightarrow> bool" where
  "exactAdditions add sends (Rank i) = True"
| "exactAdditions add sends (Combine l r) =
     (exactAdditions add sends l \<and> exactAdditions add sends r
      \<and> add (reduce add sends l) (reduce add sends r) = reduce add sends l + reduce add sends r)"

text \<open>
  The addition of two \<open>double\<close> values whose sum stays in the finite range: the exact
  sum, rounded to the nearest \<open>double\<close>.
\<close>

definition doubleAdd :: "real \<Rightarrow> real \<Rightarrow> real" where
  "doubleAdd a b = round64 (a + b)"

subsection \<open>The phases of \<open>step\<close>\<close>

text \<open>
  Lines 121 to 128, "resize and pad": the arrays get the length with halos, and the mass
  of the particle at \<open>first\<close> is written to the slots before \<open>first\<close> and from \<open>last\<close> on
  (\<open>lastIdx\<close> in the model).
  \<open>d.m[first]\<close> is read again for the second \<open>fill\<close>.
\<close>

definition resizeAndPad :: "Domain \<Rightarrow> ParticlesData \<Rightarrow> ParticlesData option" where
  "resizeAndPad domain d0 =
     (let d = resize d0 (nParticlesWithHalos domain);
          first = startIndex domain;
          lastIdx = endIndex domain
      in case readAt (m d) first of
           None \<Rightarrow> None
         | Some v1 \<Rightarrow>
             (case fill (m d) 0 first v1 of
                None \<Rightarrow> None
              | Some m1 \<Rightarrow>
                  (case readAt m1 first of
                     None \<Rightarrow> None
                   | Some v2 \<Rightarrow>
                       (case fill m1 lastIdx (nParticlesWithHalos domain) v2 of
                          None \<Rightarrow> None
                        | Some m2 \<Rightarrow> Some (d\<lparr>m := m2\<rparr>)))))"

text \<open>Lines 130 to 132: the accelerations of the owned particles are set to zero.\<close>

definition resetAccelerations :: "Domain \<Rightarrow> ParticlesData \<Rightarrow> ParticlesData option" where
  "resetAccelerations domain d =
     (case fill (ax d) (startIndex domain) (endIndex domain) 0 of
        None \<Rightarrow> None
      | Some ax' \<Rightarrow>
          (case fill (ay d) (startIndex domain) (endIndex domain) 0 of
             None \<Rightarrow> None
           | Some ay' \<Rightarrow>
               (case fill (az d) (startIndex domain) (endIndex domain) 0 of
                  None \<Rightarrow> None
                | Some az' \<Rightarrow> Some (d\<lparr>ax := ax', ay := ay', az := az'\<rparr>))))"

text \<open>
  One worker up to the reductions. \<open>sync\<close> (the domain's \<open>syncGrav\<close>) and \<open>gravity\<close>
  (\<open>upsweep\<close>, the barrier, \<open>traverse\<close> and \<open>readStats\<close> of the multipole holder) are
  parameters; \<open>gravity\<close> returns the data with the worker's partial \<open>egrav\<close> and the
  four counters.
\<close>

definition stepLocal ::
  "(ParticlesData \<Rightarrow> Domain \<times> ParticlesData) \<Rightarrow> (Domain \<Rightarrow> ParticlesData \<Rightarrow> ParticlesData \<times> stats)
   \<Rightarrow> ParticlesData \<Rightarrow> (Domain \<times> ParticlesData \<times> stats) option" where
  "stepLocal sync gravity simData =
     (let (domain, d) = sync simData
      in case resizeAndPad domain d of
           None \<Rightarrow> None
         | Some d1 \<Rightarrow>
             (case resetAccelerations domain d1 of
                None \<Rightarrow> None
              | Some d2 \<Rightarrow> (let (d3, st) = gravity domain d2 in Some (domain, d3, st))))"

text \<open>
  Lines 139 to 149, the global reduction, on the worker \<open>rank\<close>. \<open>egravs\<close> and \<open>maxP2P\<close>
  hold, in rank order, what each worker sends: its \<open>d.egrav\<close> and its counter
  \<open>stats[1]\<close>. \<open>add\<close> is the addition of \<open>double\<close> values that \<open>MPI_SUM\<close> applies,
  \<open>orderE\<close> and \<open>orderP\<close> are the orders in which the library combines the
  contributions to the two reductions. \<open>globalEnergy\<close> starts as 0, \<open>maxP2Pglobal\<close> is
  not initialised, which is \<open>None\<close>. The result is the data with the new \<open>egrav\<close>, and
  \<open>maxP2Pglobal\<close>.
\<close>

definition rootRank :: nat where
  "rootRank = 0"

definition globalReduction ::
  "(real \<Rightarrow> real \<Rightarrow> real) \<Rightarrow> reduction \<Rightarrow> reduction \<Rightarrow> nat \<Rightarrow> real list \<Rightarrow> 64 word list
   \<Rightarrow> ParticlesData \<Rightarrow> ParticlesData \<times> 64 word option" where
  "globalReduction add orderE orderP rank egravs maxP2P d =
     (let globalEnergy = MPI_Reduce add orderE egravs rootRank rank 0 (\<lambda>v. v);
          d' = d\<lparr>egrav := globalEnergy\<rparr>;
          maxP2Pglobal = MPI_Reduce max orderP maxP2P rootRank rank None Some
      in (d', maxP2Pglobal))"

text \<open>
  \<open>step\<close> on all workers: \<open>workers\<close> holds the data of each rank. Every worker runs the
  local phases and then takes part in the two reductions; \<open>readStats\<close> returns four
  counters, of which \<open>stats[1]\<close> is reduced. The timer and the line that the worker with
  \<open>startIndex = 0\<close> prints do not change the data and are left out.
\<close>

definition step ::
  "(ParticlesData \<Rightarrow> Domain \<times> ParticlesData) \<Rightarrow> (Domain \<Rightarrow> ParticlesData \<Rightarrow> ParticlesData \<times> stats)
   \<Rightarrow> (real \<Rightarrow> real \<Rightarrow> real) \<Rightarrow> reduction \<Rightarrow> reduction
   \<Rightarrow> ParticlesData list \<Rightarrow> (ParticlesData \<times> 64 word option) list option" where
  "step sync gravity add orderE orderP workers =
     (case those (map (stepLocal sync gravity) workers) of
        None \<Rightarrow> None
      | Some locals \<Rightarrow>
          (let egravs = map (\<lambda>(domain, d, st). egrav d) locals;
               maxP2P = map (\<lambda>(domain, d, st). st ! 1) locals
           in Some (map (\<lambda>(rank, domain, d, st).
                          globalReduction add orderE orderP rank egravs maxP2P d)
                        (zip [0..<length locals] locals))))"

section \<open>Density: sph/hydro_std/density.hpp\<close>

text \<open>
  \<open>computeDensity\<close> is a template over the data set \<open>d\<close>. It touches the arrays
  \<open>xm\<close>, \<open>rho\<close> and \<open>m\<close> of the particle data; everything else of the data set
  (positions, smoothing lengths, neighbour lists, kernel tables) and the box are the
  extension of the record, \<open>more d\<close>. The host branch is modelled.
\<close>

text \<open>
  Modelled from the spec: \<open>computeXMass\<close> (sph/hydro_ve/xmass.hpp) is not among the
  sources. The spec (section 1) has the SPH kernels be pure per-particle functions: for
  each particle \<open>i\<close> of the range, \<open>computeXMass\<close> stores the x-mass \<open>X i\<close> in
  \<open>d.xm[i]\<close>, where \<open>X\<close> is computed from the masses and the rest of the data set
  and is a parameter of the model.
\<close>

fun xmassLoop ::
  "('z \<Rightarrow> real list \<Rightarrow> nat \<Rightarrow> real) \<Rightarrow> 'z \<Rightarrow> real list \<Rightarrow> nat list \<Rightarrow> real list
   \<Rightarrow> real list option" where
  "xmassLoop X other ms [] xmv = Some xmv"
| "xmassLoop X other ms (i # js) xmv =
     (if i < length xmv then xmassLoop X other ms js (xmv[i := X other ms i]) else None)"

definition computeXMass ::
  "('z \<Rightarrow> real list \<Rightarrow> nat \<Rightarrow> real) \<Rightarrow> nat \<Rightarrow> nat \<Rightarrow> 'z ParticlesData_scheme
   \<Rightarrow> 'z ParticlesData_scheme option" where
  "computeXMass X startIdx endIdx d =
     (case xmassLoop X (ParticlesData.more d) (m d) [startIdx..<endIdx] (xm d) of
        None \<Rightarrow> None
      | Some xmv \<Rightarrow> Some (d\<lparr>xm := xmv\<rparr>))"

text \<open>\<open>swap(d.xm, d.rho)\<close>.\<close>

definition swapXmRho :: "'z ParticlesData_scheme \<Rightarrow> 'z ParticlesData_scheme" where
  "swapXmRho d = d\<lparr>xm := rho d, rho := xm d\<rparr>"

text \<open>The loop \<open>for (i = startIndex; i < endIndex; i++) d.rho[i] = d.m[i] / d.rho[i]\<close>.\<close>

fun convertLoop :: "nat list \<Rightarrow> real list \<Rightarrow> real list \<Rightarrow> real list option" where
  "convertLoop [] ms rhov = Some rhov"
| "convertLoop (i # js) ms rhov =
     (if i < length rhov \<and> i < length ms
      then convertLoop js ms (rhov[i := ms ! i / rhov ! i])
      else None)"

definition computeDensity ::
  "('z \<Rightarrow> real list \<Rightarrow> nat \<Rightarrow> real) \<Rightarrow> nat \<Rightarrow> nat \<Rightarrow> 'z ParticlesData_scheme
   \<Rightarrow> 'z ParticlesData_scheme option" where
  "computeDensity X startIdx endIdx d =
     (case computeXMass X startIdx endIdx (swapXmRho d) of
        None \<Rightarrow> None
      | Some d1 \<Rightarrow>
          (let d2 = swapXmRho d1
           in case convertLoop [startIdx..<endIdx] (m d2) (rho d2) of
                None \<Rightarrow> None
              | Some rhov \<Rightarrow> Some (d2\<lparr>rho := rhov\<rparr>)))"

section \<open>Example data\<close>

text \<open>
  Concrete inputs on which the theorems below are instantiated: a domain with 25
  particles of which those from 5 to 19 are owned, particle data whose mass at index
  \<open>i\<close> is \<open>i\<close>, a data set of four particles with the x-mass \<open>i + 1\<close>, and two
  particles of a square patch that are neighbours of each other.
\<close>

definition exampleDomain :: Domain where
  "exampleDomain = \<lparr>nParticlesWithHalos = 25, startIndex = 5, endIndex = 20\<rparr>"

definition exampleParticles :: ParticlesData where
  "exampleParticles = \<lparr>m = map real [0..<25], xm = [], rho = [], ax = replicate 25 1,
                        ay = replicate 25 1, az = replicate 25 1, egrav = - 2\<rparr>"

definition exampleDensityData :: ParticlesData where
  "exampleDensityData = \<lparr>m = [2, 4, 6, 8], xm = [9, 9, 9, 9], rho = [1, 1, 1, 1], ax = [],
                          ay = [], az = [], egrav = 0\<rparr>"

definition exampleXMass :: "unit \<Rightarrow> real list \<Rightarrow> nat \<Rightarrow> real" where
  "exampleXMass other ms i = real i + 1"

definition exampleKernels :: Kernels where
  "exampleKernels = \<lparr>artificial_viscosity = (\<lambda>a b c d e f g h. 0),
                      wharmonic_derivative = (\<lambda>a b c. 1)\<rparr>"

definition examplePatch :: MomentumSquarePatch where
  "examplePatch = \<lparr>x = [0, 1], y = [0, 0], z = [0, 0], h = [1, 1], vx = [0, 0], vy = [0, 0],
                    vz = [0, 0], ro = [1, 1], p = [1, 1], c = [1, 1], m = [1, 1],
                    iteration = 0, neighbors = [[0, 1], [0, 1]],
                    grad_P_x = [0, 0], grad_P_y = [0, 0], grad_P_z = [0, 0],
                    params = \<lparr>K = 1, delta_x_i = 1, A_i = 0, ep1 = 2 / 10, ep2 = 2 / 100,
                               mre = 4, init_timesteps = 15\<rparr>\<rparr>"

section \<open>Properties of the rounding\<close>

lemma roundHalfEven_bounds:
  "of_int (roundHalfEven v) \<le> v + 1 / 2" "v - 1 / 2 \<le> of_int (roundHalfEven v)"
  "\<lfloor>v\<rfloor> \<le> roundHalfEven v"
  unfolding roundHalfEven_def Let_def by (auto; linarith)+

lemma floor_log2_eq:
  assumes "0 < v" and "2 powr of_int k \<le> v" and "v < 2 powr of_int (k + 1)"
  shows "\<lfloor>log 2 v\<rfloor> = k"
  using assms by (simp add: floor_log_eq_powr_iff)

lemma floor_log2_bounds:
  assumes "0 < v"
  shows "2 powr of_int \<lfloor>log 2 v\<rfloor> \<le> v" and "v < 2 powr of_int (\<lfloor>log 2 v\<rfloor> + 1)"
proof -
  have "of_int \<lfloor>log 2 v\<rfloor> \<le> log 2 v" by simp
  then have "2 powr of_int \<lfloor>log 2 v\<rfloor> \<le> 2 powr log 2 v" by (simp only: powr_le_cancel_iff) 
  then show "2 powr of_int \<lfloor>log 2 v\<rfloor> \<le> v" using assms by simp
  have "log 2 v < of_int (\<lfloor>log 2 v\<rfloor> + 1)" by linarith
  then have "2 powr log 2 v < 2 powr of_int (\<lfloor>log 2 v\<rfloor> + 1)" by (simp only: powr_less_cancel_iff)
  then show "v < 2 powr of_int (\<lfloor>log 2 v\<rfloor> + 1)" using assms by simp
qed

text \<open>Evaluation of a rounding, given the binade \<open>k\<close> of the argument.\<close>

lemma roundFloat_eval:
  assumes "v \<noteq> 0" and "2 powr of_int k \<le> \<bar>v\<bar>" and "\<bar>v\<bar> < 2 powr of_int (k + 1)" and "emin \<le> k"
    and "roundHalfEven (v / 2 powr of_int (k - (int prec - 1))) = n"
  shows "roundFloat prec emin v = of_int n * 2 powr of_int (k - (int prec - 1))"
proof -
  have "0 < \<bar>v\<bar>" using assms(1) by simp
  then have "\<lfloor>log 2 \<bar>v\<bar>\<rfloor> = k" using floor_log2_eq[OF _ assms(2,3)] by simp
  then show ?thesis using assms(1,4,5) by (simp add: roundFloat_def Let_def max_def)
qed

lemma round32_eval:
  assumes "v \<noteq> 0" and "2 powr of_int k \<le> \<bar>v\<bar>" and "\<bar>v\<bar> < 2 powr of_int (k + 1)" and "- 126 \<le> k"
    and "roundHalfEven (v / 2 powr of_int (k - 23)) = n"
  shows "round32 v = of_int n * 2 powr of_int (k - 23)"
  unfolding round32_def using roundFloat_eval[OF assms(1-4), of 24 n] assms(5) by simp

lemma round64_eval:
  assumes "v \<noteq> 0" and "2 powr of_int k \<le> \<bar>v\<bar>" and "\<bar>v\<bar> < 2 powr of_int (k + 1)" and "- 1022 \<le> k"
    and "roundHalfEven (v / 2 powr of_int (k - 52)) = n"
  shows "round64 v = of_int n * 2 powr of_int (k - 52)"
  unfolding round64_def using roundFloat_eval[OF assms(1-4), of 53 n] assms(5) by simp

lemma roundFloat_nonneg: "0 \<le> v \<Longrightarrow> 0 \<le> roundFloat prec emin v"
proof -
  assume v: "0 \<le> v"
  show ?thesis
  proof (cases "v = 0")
    case True then show ?thesis by (simp add: roundFloat_def)
  next
    case False
    define e where "e = max \<lfloor>log 2 \<bar>v\<bar>\<rfloor> emin"
    define ulp where "ulp = (2::real) powr of_int (e - (int prec - 1))"
    have u: "0 < ulp" by (simp add: ulp_def)
    have "0 \<le> v / ulp" using v u by simp
    then have "0 \<le> \<lfloor>v / ulp\<rfloor>" by simp
    then have "0 \<le> roundHalfEven (v / ulp)" using roundHalfEven_bounds(3)[of "v / ulp"] by linarith
    then have "0 \<le> of_int (roundHalfEven (v / ulp)) * ulp" using u by simp
    then show ?thesis using False by (simp add: roundFloat_def Let_def e_def ulp_def)
  qed
qed

lemma ulp32: "(2::real) powr of_int (k - (int 24 - 1)) = 2 powr of_int k / 2 ^ 23"
  by (simp add: powr_diff)

lemma round32_unfold:
  assumes "0 < v" and "- 126 \<le> \<lfloor>log 2 v\<rfloor>"
  shows "round32 v = of_int (roundHalfEven (v / (2 powr of_int \<lfloor>log 2 v\<rfloor> / 2 ^ 23)))
                       * (2 powr of_int \<lfloor>log 2 v\<rfloor> / 2 ^ 23)"
proof -
  have "\<bar>v\<bar> = v" using assms(1) by simp
  then have "max \<lfloor>log 2 \<bar>v\<bar>\<rfloor> (- 126) = \<lfloor>log 2 v\<rfloor>"
    using assms(2) by (simp only: max_absorb1)
  then show ?thesis
    using assms(1) unfolding round32_def roundFloat_def Let_def by (simp only: ulp32) simp
qed

text \<open>Rounding keeps a value that is at least 1 at least 1.\<close>

lemma round32_ge_one:
  assumes "1 \<le> v"
  shows "1 \<le> round32 v"
proof -
  have v0: "0 < v" using assms by simp
  define k where "k = \<lfloor>log 2 v\<rfloor>"
  have "0 \<le> log 2 v" using assms by simp
  then have k0: "0 \<le> k" by (simp add: k_def)
  define ulp where "ulp = (2::real) powr of_int k / 2 ^ 23"
  have u: "0 < ulp" by (simp add: ulp_def)
  have r: "round32 v = of_int (roundHalfEven (v / ulp)) * ulp"
    unfolding ulp_def k_def using k0 by (intro round32_unfold[OF v0]) (simp add: k_def)
  have kv: "2 powr of_int k \<le> v" using floor_log2_bounds(1)[OF v0] by (simp add: k_def)
  have pk: "2 powr of_int k = 2 ^ 23 * ulp" by (simp add: ulp_def)
  have "2 ^ 23 * ulp \<le> v" using kv pk by simp
  then have "2 ^ 23 \<le> v / ulp" using u by (simp add: pos_le_divide_eq)
  then have "of_int (2 ^ 23) \<le> v / ulp" by simp
  then have "2 ^ 23 \<le> \<lfloor>v / ulp\<rfloor>" by (simp only: le_floor_iff)
  then have "2 ^ 23 \<le> roundHalfEven (v / ulp)"
    using roundHalfEven_bounds(3)[of "v / ulp"] by linarith
  then have "of_int (2 ^ 23) \<le> (of_int (roundHalfEven (v / ulp)) :: real)"
    by (simp only: of_int_le_iff)
  then have "of_int (2 ^ 23) * ulp \<le> of_int (roundHalfEven (v / ulp)) * ulp"
    using u by (simp only: mult_le_cancel_right_pos)
  then have "2 powr of_int k \<le> round32 v" by (simp add: pk r)
  moreover have "1 \<le> 2 powr (of_int k :: real)" using k0 by (intro ge_one_powr_ge_zero) simp_all
  ultimately show ?thesis by linarith
qed

text \<open>The relative error of a rounding in the normal range is at most \<open>2^-24\<close>.\<close>

lemma round32_upper:
  assumes "2 powr of_int (- 126) \<le> v"
  shows "round32 v \<le> v * (1 + 1 / 2 ^ 24)"
proof -
  have v0: "0 < v" using assms by (smt (verit) powr_gt_zero)
  define k where "k = \<lfloor>log 2 v\<rfloor>"
  have "of_int (- 126) \<le> log 2 v" using assms v0 by (simp add: le_log_iff)
  then have ek: "- 126 \<le> k" by (simp add: k_def le_floor_iff)
  define ulp where "ulp = (2::real) powr of_int k / 2 ^ 23"
  have u: "0 < ulp" by (simp add: ulp_def)
  have r: "round32 v = of_int (roundHalfEven (v / ulp)) * ulp"
    unfolding ulp_def k_def using ek by (intro round32_unfold[OF v0]) (simp add: k_def)
  have kv: "2 powr of_int k \<le> v" using floor_log2_bounds(1)[OF v0] by (simp add: k_def)
  have "ulp / 2 \<le> v * (1 / 2 ^ 24)" unfolding ulp_def using kv by simp
  moreover have "of_int (roundHalfEven (v / ulp)) * ulp \<le> (v / ulp + 1 / 2) * ulp"
    using roundHalfEven_bounds(1)[of "v / ulp"] u by (simp only: mult_le_cancel_right_pos)
  moreover have "(v / ulp + 1 / 2) * ulp = v + ulp / 2" using u by (simp add: distrib_right)
  ultimately have "round32 v \<le> v + v * (1 / 2 ^ 24)" unfolding r by linarith
  then show ?thesis by (simp add: distrib_left)
qed

text \<open>The \<open>float\<close> that the literal 0.4 becomes, and small integers, which are \<open>float\<close>s.\<close>

lemma fastFraction_value: "round32 (round64 (4 / 10)) = 13421773 / 2 ^ 25"
proof -
  have d: "round64 (4 / 10) = 3602879701896397 / 2 ^ 53"
    by (subst round64_eval[where k = "-2" and n = "7205759403792794"])
       (simp_all add: roundHalfEven_def powr_minus)
  have "round32 (3602879701896397 / 2 ^ 53) = 13421773 / 2 ^ 25"
    by (subst round32_eval[where k = "-2" and n = "13421773"])
       (simp_all add: roundHalfEven_def powr_minus)
  then show ?thesis unfolding d .
qed

lemma round32_1: "round32 1 = 1"
  by (subst round32_eval[where k = 0 and n = "2 ^ 23"]) (simp_all add: roundHalfEven_def powr_minus)

lemma round32_2: "round32 2 = 2"
  by (subst round32_eval[where k = 1 and n = "2 ^ 23"]) (simp_all add: roundHalfEven_def powr_minus)

lemma round32_3: "round32 3 = 3"
  by (subst round32_eval[where k = 1 and n = "3 * 2 ^ 22"]) (simp_all add: roundHalfEven_def powr_minus)

lemma round32_4: "round32 4 = 4"
  by (subst round32_eval[where k = 2 and n = "2 ^ 23"]) (simp_all add: roundHalfEven_def powr_minus)

lemma round32_5: "round32 5 = 5"
  by (subst round32_eval[where k = 2 and n = "5 * 2 ^ 21"]) (simp_all add: roundHalfEven_def powr_minus)

text \<open>The fast-fraction index lies inside the array of a worker that has groups.\<close>

lemma fastIndex_lt: 
  assumes "0 < n" shows "fastIndex n < n"
proof -
  let ?d = "1 + 1 / 2 ^ 24 :: real"
  let ?f = "13421773 / 2 ^ 25 :: real"
  have n1: "1 \<le> real n" using assms by simp
  have "2 powr of_int (- 126) \<le> (1::real)" by (simp add: powr_minus)
  then have "2 powr of_int (- 126) \<le> real n" using n1 by linarith
  then have fn: "round32 (real n) \<le> real n * ?d"
    using round32_upper[of "real n"] by simp
  have fn1: "1 \<le> round32 (real n)" using n1 by (rule round32_ge_one)
  let ?q = "?f * round32 (real n)"
  have "?f * 1 \<le> ?q" using fn1 by (intro mult_left_mono) simp_all
  then have q_lo: "?f \<le> ?q" by simp
  have "2 powr of_int (- 126) \<le> ?f" by (simp add: powr_minus)
  then have "2 powr of_int (- 126) \<le> ?q" using q_lo by linarith
  then have rq: "round32 ?q \<le> ?q * ?d"
    using round32_upper[of ?q] by simp
  have "?q \<le> ?f * (real n * ?d)" using fn by (intro mult_left_mono) simp_all
  then have "?q * ?d \<le> (?f * (real n * ?d)) * ?d"
    by (intro mult_right_mono) simp_all
  also have "\<dots> = (?f * ?d * ?d) * real n" by (simp only: mult_ac)
  also have "\<dots> < 1 * real n"
  proof (rule mult_strict_right_mono)
    show "?f * ?d * ?d < 1" by simp
    show "0 < real n" using assms by simp
  qed
  finally have "?q * ?d < real n" by simp
  then have "round32 ?q < real n" using rq by linarith
  moreover have "(0::real) \<le> ?f" by simp
  then have "0 \<le> ?q" using q_lo by (rule order_trans)
  then have "0 \<le> round32 ?q" unfolding round32_def by (rule roundFloat_nonneg)
  ultimately have "\<lfloor>round32 ?q\<rfloor> < int n" by (simp add: floor_less_iff)
  then show ?thesis unfolding fastIndex_def fastFraction_value using assms by linarith
qed

lemma fastIndex_eval:
  assumes "round32 (real n) = real n"
    and "round32 (13421773 / 2 ^ 25 * real n) = w" and "nat \<lfloor>w\<rfloor> = j"
  shows "fastIndex n = j"
  unfolding fastIndex_def fastFraction_value assms(1) assms(2) using assms(3) .

lemma fastIndex_1: "fastIndex 1 = 0"
proof (rule fastIndex_eval[where w = "13421773 / 2 ^ 25"])
  show "round32 (real 1) = real 1" using round32_1 by simp
  show "round32 (13421773 / 2 ^ 25 * real 1) = 13421773 / 2 ^ 25"
    by (subst round32_eval[where k = "-2" and n = "13421773"])
       (simp_all add: roundHalfEven_def powr_minus)
  show "nat \<lfloor>13421773 / 2 ^ 25 :: real\<rfloor> = 0" by simp
qed

lemma fastIndex_2: "fastIndex 2 = 0"
proof (rule fastIndex_eval[where w = "13421773 / 2 ^ 24"])
  show "round32 (real 2) = real 2" using round32_2 by simp
  show "round32 (13421773 / 2 ^ 25 * real 2) = 13421773 / 2 ^ 24"
    by (subst round32_eval[where k = "-1" and n = "13421773"])
       (simp_all add: roundHalfEven_def powr_minus)
  show "nat \<lfloor>13421773 / 2 ^ 24 :: real\<rfloor> = 0" by simp
qed

lemma fastIndex_3: "fastIndex 3 = 1"
proof (rule fastIndex_eval[where w = "10066330 / 2 ^ 23"])
  show "round32 (real 3) = real 3" using round32_3 by simp
  show "round32 (13421773 / 2 ^ 25 * real 3) = 10066330 / 2 ^ 23"
    by (subst round32_eval[where k = "0" and n = "10066330"])
       (simp_all add: roundHalfEven_def powr_minus)
  show "nat \<lfloor>10066330 / 2 ^ 23 :: real\<rfloor> = 1" by simp
qed

lemma fastIndex_5: "fastIndex 5 = 2"
proof (rule fastIndex_eval[where w = 2])
  show "round32 (real 5) = real 5" using round32_5 by simp
  show "round32 (13421773 / 2 ^ 25 * real 5) = 2"
    by (subst round32_eval[where k = "1" and n = "2 ^ 23"])
       (simp_all add: roundHalfEven_def powr_minus)
  show "nat \<lfloor>2 :: real\<rfloor> = 2" by simp
qed

text \<open>
  The index is that of the \<open>float\<close> product, not \<open>\<lfloor>0.4 n\<rfloor>\<close>: with 10485762 groups the
  product rounds up to 4194305, one more than the exact 4194304.8 truncates to.
\<close>

lemma fastIndex_float_product:
  "fastIndex 10485762 = 4194305 \<and> nat \<lfloor>(4 / 10 :: real) * real (10485762 :: nat)\<rfloor> = 4194304"
proof
  show "fastIndex 10485762 = 4194305"
  proof (rule fastIndex_eval[where w = 4194305])
    show "round32 (real 10485762) = real 10485762"
      by (subst round32_eval[where k = 23 and n = "10485762"])
         (simp_all add: roundHalfEven_def powr_minus)
    show "round32 (13421773 / 2 ^ 25 * real 10485762) = 4194305"
      by (subst round32_eval[where k = "22" and n = "8388610"])
         (simp_all add: roundHalfEven_def powr_minus)
    show "nat \<lfloor>4194305 :: real\<rfloor> = 4194305" by simp
  qed
  show "nat \<lfloor>(4 / 10 :: real) * real (10485762 :: nat)\<rfloor> = 4194304" by simp
qed


section \<open>Properties of the rung scheduler\<close>

subsection \<open>Sorting, searching, reducing\<close>

lemma map_fst_insort_key:
  "map f (insort_key f e xs) = insort (f e) (map f xs)"
  by (induction xs) auto

lemma map_sort_key: "map f (sort_key f xs) = sort (map f xs)"
  by (induction xs) (auto simp: map_fst_insort_key)

lemma fst_sortGroupDt: "fst (sortGroupDt g (length g)) = sort g"
  by (simp add: sortGroupDt_def sortByKeyGpu_def sequenceGpu_def Let_def map_sort_key)

lemma sortGroupDt_perm:
  assumes "sortGroupDt g (length g) = (ks, idx)" and "q < length g"
  shows "length ks = length g" and "length idx = length g"
    and "idx ! q < length g" and "g ! (idx ! q) = ks ! q"
proof -
  define kv where "kv = sort_key fst (zip g [0..<length g])"
  have ks: "ks = map fst kv" and idx: "idx = map snd kv"
    using assms(1) by (simp_all add: sortGroupDt_def sortByKeyGpu_def sequenceGpu_def Let_def kv_def)
  have len: "length kv = length g" by (simp add: kv_def)
  show "length ks = length g" "length idx = length g" by (simp_all add: ks idx len)
  have "kv ! q \<in> set kv" using assms(2) len by simp
  then have mem: "kv ! q \<in> set (zip g [0..<length g])" by (simp add: kv_def)
  then obtain i where i: "i < length g" "kv ! q = (g ! i, i)"
    by (auto simp: set_zip)
  show "idx ! q < length g" using i assms(2) len by (simp add: idx)
  show "g ! (idx ! q) = ks ! q" using i assms(2) len by (simp add: idx ks)
qed


lemma shl1_pow: 
  assumes "rung < 31" shows "shl1 rung = 2 ^ rung"
proof -
  have "(2::int) ^ rung < 2 ^ 31" using assms by (intro power_strict_increasing) simp_all
  moreover have "- ((2::int) ^ 31) \<le> 2 ^ rung" by (smt (verit) zero_less_power)
  ultimately have "signed_take_bit 31 ((2::int) ^ rung) = 2 ^ rung"
    by (intro signed_take_bit_int_eq_self) auto
  moreover have "push_bit rung (1 :: 32 word) = word_of_int (2 ^ rung)"
    by (simp add: push_bit_of_1)
  ultimately show ?thesis
    unfolding shl1_def by (simp only: sint_sbintrunc') simp
qed

lemma lowerBoundLoop_spec:
  assumes "sorted xs" and "first + cnt \<le> length xs"
    and "\<forall>i < first. xs ! i \<le> v"
    and "\<forall>i. first + cnt \<le> i \<and> i < length xs \<longrightarrow> v < xs ! i"
  shows "first \<le> lowerBoundLoop xs v first cnt
       \<and> lowerBoundLoop xs v first cnt \<le> first + cnt
       \<and> (\<forall>i < lowerBoundLoop xs v first cnt. xs ! i \<le> v)
       \<and> (\<forall>i. lowerBoundLoop xs v first cnt \<le> i \<and> i < length xs \<longrightarrow> v < xs ! i)"
  using assms
proof (induction xs v first cnt rule: lowerBoundLoop.induct)
  case (1 xs v first cnt)
  show ?case
  proof (cases "0 < cnt")
    case False
    then show ?thesis using "1.prems" by (simp add: lowerBoundLoop.simps[of xs v first cnt])
  next
    case True
    define step where "step = cnt div 2"
    define it where "it = first + step"
    have it_lt: "it < length xs" using True "1.prems"(2) by (simp add: it_def step_def) 
    show ?thesis
    proof (cases "\<not> v < xs ! it")
      case le: True
      have below: "\<forall>i < it + 1. xs ! i \<le> v"
      proof (intro allI impI)
        fix i assume "i < it + 1"
        then have "i \<le> it" by simp
        then have "xs ! i \<le> xs ! it" using "1.prems"(1) it_lt by (simp add: sorted_nth_mono)
        then show "xs ! i \<le> v" using le by simp
      qed
      have bnd: "it + 1 + (cnt - (step + 1)) \<le> length xs"
        using True "1.prems"(2) by (simp add: it_def step_def)
      have above: "\<forall>i. it + 1 + (cnt - (step + 1)) \<le> i \<and> i < length xs \<longrightarrow> v < xs ! i"
        using "1.prems"(4) True by (auto simp: it_def step_def)
      have eq: "lowerBoundLoop xs v first cnt = lowerBoundLoop xs v (it + 1) (cnt - (step + 1))"
        using True le by (simp add: lowerBoundLoop.simps[of xs v first cnt] Let_def it_def step_def)
      have IH: "it + 1 \<le> lowerBoundLoop xs v (it + 1) (cnt - (step + 1))
       \<and> lowerBoundLoop xs v (it + 1) (cnt - (step + 1)) \<le> it + 1 + (cnt - (step + 1))
       \<and> (\<forall>i < lowerBoundLoop xs v (it + 1) (cnt - (step + 1)). xs ! i \<le> v)
       \<and> (\<forall>i. lowerBoundLoop xs v (it + 1) (cnt - (step + 1)) \<le> i \<and> i < length xs \<longrightarrow> v < xs ! i)"
        using "1.IH"(1)[OF True step_def it_def le "1.prems"(1) bnd below above] .
      have "it + 1 + (cnt - (step + 1)) \<le> first + cnt" using True by (simp add: it_def step_def)
      moreover have "first \<le> it + 1" by (simp add: it_def)
      ultimately show ?thesis using IH unfolding eq by auto
    next
      case gt: False
      have above: "\<forall>i. first + step \<le> i \<and> i < length xs \<longrightarrow> v < xs ! i"
      proof (intro allI impI)
        fix i assume "first + step \<le> i \<and> i < length xs"
        then have "xs ! it \<le> xs ! i" using "1.prems"(1) by (simp add: sorted_nth_mono it_def)
        then show "v < xs ! i" using gt by simp
      qed
      have bnd: "first + step \<le> length xs" using "1.prems"(2) by (simp add: step_def)
      have eq: "lowerBoundLoop xs v first cnt = lowerBoundLoop xs v first step"
        using True gt by (simp add: lowerBoundLoop.simps[of xs v first cnt] Let_def it_def step_def)
      have IH: "first \<le> lowerBoundLoop xs v first step
       \<and> lowerBoundLoop xs v first step \<le> first + step
       \<and> (\<forall>i < lowerBoundLoop xs v first step. xs ! i \<le> v)
       \<and> (\<forall>i. lowerBoundLoop xs v first step \<le> i \<and> i < length xs \<longrightarrow> v < xs ! i)"
        using "1.IH"(2)[OF True step_def it_def gt "1.prems"(1) bnd "1.prems"(3) above] .
      have "first + step \<le> first + cnt" by (simp add: step_def)
      then show ?thesis using IH unfolding eq by auto
    qed
  qed
qed

lemma lowerBoundGpu_spec:
  assumes "sorted xs"
  shows "lowerBoundGpu xs v \<le> length xs"
    and "i < lowerBoundGpu xs v \<Longrightarrow> xs ! i \<le> v"
    and "lowerBoundGpu xs v \<le> i \<Longrightarrow> i < length xs \<Longrightarrow> v < xs ! i"
  using lowerBoundLoop_spec[of xs 0 "length xs" v] assms
  by (auto simp: lowerBoundGpu_def)

lemma lowerBoundGpu_takeWhile:
  assumes "sorted xs"
  shows "lowerBoundGpu xs v = firstIndexExceeding xs v"
proof -
  let ?r = "lowerBoundGpu xs v"
  have "takeWhile (\<lambda>e. \<not> v < e) xs = take ?r xs"
  proof (rule takeWhile_eq_take_P_nth)
    fix i assume "i < ?r" "i < length xs"
    then show "\<not> v < xs ! i" using lowerBoundGpu_spec(2)[OF assms, of i v] by simp
  next
    assume "?r < length xs"
    then have "v < xs ! ?r" using lowerBoundGpu_spec(3)[OF assms, of v ?r] by simp
    then show "\<not> \<not> v < xs ! ?r" by simp
  qed
  then show ?thesis
    using lowerBoundGpu_spec(1)[OF assms, of v] by (simp add: firstIndexExceeding_def)
qed

lemma lowerBoundGpu_mono:
  assumes "sorted xs" and "v \<le> w"
  shows "lowerBoundGpu xs v \<le> lowerBoundGpu xs w"
proof (rule ccontr)
  assume "\<not> ?thesis"
  then have lt: "lowerBoundGpu xs w < lowerBoundGpu xs v" by simp
  then have "xs ! lowerBoundGpu xs w \<le> v" using lowerBoundGpu_spec(2)[OF assms(1)] by simp
  moreover have "lowerBoundGpu xs w < length xs"
    using lt lowerBoundGpu_spec(1)[OF assms(1), of v] by simp
  then have "w < xs ! lowerBoundGpu xs w" using lowerBoundGpu_spec(3)[OF assms(1), of w] by simp
  ultimately show False using assms(2) by simp
qed

lemma fold_upd_length: "length (fold (\<lambda>r rr. rr[r := F r]) js rr) = length rr"
  by (induction js arbitrary: rr) auto

lemma fold_upd_nth:
  "j < length rr \<Longrightarrow>
   fold (\<lambda>r rr. rr[r := F r]) [1..<k] rr ! j = (if 1 \<le> j \<and> j < k then F j else rr ! j)"
proof (induction k)
  case 0
  then show ?case by simp
next
  case (Suc k)
  show ?case
  proof (cases "1 \<le> k")
    case True
    then have eq: "[1..<Suc k] = [1..<k] @ [k]" by simp
    have len: "length (fold (\<lambda>r rr. rr[r := F r]) [1..<k] rr) = length rr"
      by (rule fold_upd_length)
    show ?thesis
    proof (cases "j = k")
      case True
      then show ?thesis using Suc.prems \<open>1 \<le> k\<close> by (simp only: eq fold_append) (simp add: fold_upd_length)
    next
      case False
      then show ?thesis using Suc by (simp only: eq fold_append) (simp add: fold_upd_length)
    qed
  next
    case False
    then show ?thesis by auto
  qed
qed

lemma rungLoop_length: "length (rungLoop g mn nR rr) = length rr"
  by (simp add: rungLoop_def fold_upd_length)

lemma rungLoop_nth:
  "j < length rr \<Longrightarrow>
   rungLoop g mn nR rr ! j =
     (if 1 \<le> j \<and> int j < nR then lowerBoundGpu g (real_of_int (shl1 j) * mn) else rr ! j)"
  unfolding rungLoop_def by (subst fold_upd_nth) auto

lemma memcpy_Some: "i < length xs \<Longrightarrow> memcpyD2H xs i = Some (xs ! i)"
  by (simp add: memcpyD2H_def)

lemma localRange_eq:
  "localRange g = (if g = [] then None else Some (sort g ! 0, sort g ! fastIndex (length g)))"
proof (cases "g = []")
  case True
  then show ?thesis
    by (simp add: localRange_def timestepRangeGpu_def memcpyD2H_def sortGroupDt_def
        sortByKeyGpu_def sequenceGpu_def)
next
  case False
  then have "0 < length g" by simp
  from fastIndex_lt[OF this] show ?thesis using False
    unfolding localRange_def fst_sortGroupDt
    by (simp add: timestepRangeGpu_def memcpyD2H_def fastIndex_def)
qed

lemma those_map_Some:
  "(\<And>e. e \<in> set xs \<Longrightarrow> f e = Some (g e)) \<Longrightarrow> those (map f xs) = Some (map g xs)"
  by (induction xs) auto

lemma those_map_None:
  "e \<in> set xs \<Longrightarrow> f e = None \<Longrightarrow> those (map f xs) = None"
  by (induction xs) (auto split: option.splits)

lemma fst_mpiAllreduceMin:
  "fst (mpiAllreduceMin mine others) = Min (insert (fst mine) (fst ` set others))"
proof -
  have "fst (mpiAllreduceMin mine others) = fold min (map fst others) (fst mine)"
    unfolding mpiAllreduceMin_def by (induction others arbitrary: mine) auto
  also have "\<dots> = Min (set (fst mine # map fst others))" by (simp only: Min.set_eq_fold)
  finally show ?thesis by simp
qed

lemma snd_mpiAllreduceMin:
  "snd (mpiAllreduceMin mine others) = Min (insert (snd mine) (snd ` set others))"
proof -
  have "snd (mpiAllreduceMin mine others) = fold min (map snd others) (snd mine)"
    unfolding mpiAllreduceMin_def by (induction others arbitrary: mine) auto
  also have "\<dots> = Min (set (snd mine # map snd others))" by (simp only: Min.set_eq_fold)
  finally show ?thesis by simp
qed

lemma sort_nth0_Min: "g \<noteq> [] \<Longrightarrow> sort g ! 0 = Min (set (g :: real list))"
proof -
  assume ne: "g \<noteq> []"
  then have len: "0 < length (sort g)" by simp
  have "sort g ! 0 \<in> set (sort g)" using len by (intro nth_mem)
  then have mem: "sort g ! 0 \<in> set g" by simp
  have "\<And>y. y \<in> set g \<Longrightarrow> sort g ! 0 \<le> y"
  proof -
    fix y assume "y \<in> set g"
    then have "y \<in> set (sort g)" by simp
    then obtain i where "i < length (sort g)" "sort g ! i = y" by (metis in_set_conv_nth)
    then show "sort g ! 0 \<le> y" using sorted_nth_mono[of "sort g" 0 i] by auto
  qed
  then show ?thesis using mem by (intro Min_eqI[symmetric]) auto
qed

lemma computeRungTimestep_unfold:
  "computeRungTimestep lg M g peers =
     (case reducedRange g peers of
        None \<Rightarrow> None
      | Some mm \<Rightarrow>
          Some (\<lparr>minDt = fst mm,
                 numRungs = min (intAdd (intLog2Ratio lg (snd mm) (fst mm)) 1) (int M),
                 substep = 0,
                 rungRanges = rungLoop (sort g) (fst mm)
                                (min (intAdd (intLog2Ratio lg (snd mm) (fst mm)) 1) (int M))
                                (0 # replicate M (length g)),
                 dt_drift = replicate M 0\<rparr>,
                sort g, snd (sortGroupDt g (length g))))"
  unfolding computeRungTimestep_def reducedRange_def localRange_def fst_sortGroupDt Let_def
  by (simp split: option.splits)

lemma fastRef_mem: "g \<noteq> [] \<Longrightarrow> fastRef g \<in> set g"
proof -
  assume "g \<noteq> []"
  then have "fastIndex (length g) < length (sort g)"
    using fastIndex_lt[of "length g"] by simp
  then have "fastRef g \<in> set (sort g)" unfolding fastRef_def by (rule nth_mem)
  then show ?thesis by simp
qed

lemma reducedRange_None:
  "g = [] \<or> [] \<in> set peers \<Longrightarrow> reducedRange g peers = None"
  by (auto simp: reducedRange_def localRange_eq those_map_None[where f = localRange and e = "[]"]
      split: option.splits)

lemma reducedRange_Some:
  assumes "g \<noteq> []" and "[] \<notin> set peers"
  shows "reducedRange g peers =
           Some (Min (\<Union> (set ` set (g # peers))), Min (fastRef ` set (g # peers)))"
proof -
  let ?f = "\<lambda>q. (Min (set q), fastRef q)"
  have mine: "localRange g = Some (?f g)"
    using assms(1) by (simp add: localRange_eq sort_nth0_Min fastRef_def)
  have "\<And>q. q \<in> set peers \<Longrightarrow> localRange q = Some (?f q)"
    using assms(2) by (auto simp: localRange_eq sort_nth0_Min fastRef_def)
  then have others: "those (map localRange peers) = Some (map ?f peers)"
    by (rule those_map_Some)
  have red: "reducedRange g peers = Some (mpiAllreduceMin (?f g) (map ?f peers))"
    by (simp add: reducedRange_def mine others)
  have ne: "\<And>q. q \<in> set (g # peers) \<Longrightarrow> set q \<noteq> {} \<and> finite (set q)"
    using assms by auto
  have "fst (mpiAllreduceMin (?f g) (map ?f peers)) = Min ((\<lambda>q. Min (set q)) ` set (g # peers))"
    by (simp add: fst_mpiAllreduceMin image_image)
  also have "\<dots> = Min (\<Union> (set ` set (g # peers)))"
  proof (rule Min_eqI[symmetric])
    show "finite (\<Union> (set ` set (g # peers)))" by simp
    show "Min ((\<lambda>q. Min (set q)) ` set (g # peers)) \<in> \<Union> (set ` set (g # peers))"
    proof -
      have "Min ((\<lambda>q. Min (set q)) ` set (g # peers)) \<in> (\<lambda>q. Min (set q)) ` set (g # peers)"
        by (rule Min_in) auto
      then obtain q where q: "q \<in> set (g # peers)"
        and eq: "Min ((\<lambda>q. Min (set q)) ` set (g # peers)) = Min (set q)" by auto
      have "Min (set q) \<in> set q" using ne[OF q] by (intro Min_in) auto
      then show ?thesis using q eq by auto
    qed
    fix y assume "y \<in> \<Union> (set ` set (g # peers))"
    then obtain q where q: "q \<in> set (g # peers)" and y: "y \<in> set q" by auto
    have "Min ((\<lambda>q. Min (set q)) ` set (g # peers)) \<le> Min (set q)"
      using q by (intro Min_le) auto
    also have "\<dots> \<le> y" using y by (intro Min_le) auto
    finally show "Min ((\<lambda>q. Min (set q)) ` set (g # peers)) \<le> y" .
  qed
  finally have f: "fst (mpiAllreduceMin (?f g) (map ?f peers)) = Min (\<Union> (set ` set (g # peers)))" .
  have s: "snd (mpiAllreduceMin (?f g) (map ?f peers)) = Min (fastRef ` set (g # peers))"
    by (simp add: snd_mpiAllreduceMin image_image)
  show ?thesis unfolding red using f s by (simp add: prod_eq_iff)
qed

lemma reduced_min_le_ref:
  assumes "g \<noteq> []" and "[] \<notin> set peers"
  shows "Min (\<Union> (set ` set (g # peers))) \<le> Min (fastRef ` set (g # peers))"
proof -
  have "Min (fastRef ` set (g # peers)) \<in> fastRef ` set (g # peers)" by (rule Min_in) auto
  then obtain q where q: "q \<in> set (g # peers)"
    and eq: "Min (fastRef ` set (g # peers)) = fastRef q" by auto
  have "q \<noteq> []" using q assms by auto
  then have "fastRef q \<in> \<Union> (set ` set (g # peers))" using fastRef_mem q by blast
  then show ?thesis unfolding eq by (intro Min_le) auto
qed

lemma reduced_min_le:
  assumes "e \<in> set g"
  shows "Min (\<Union> (set ` set (g # peers))) \<le> e"
  using assms by (intro Min_le) auto

lemma intAdd_1:
  assumes "- (2 ^ 31) \<le> l" and "l < 2 ^ 31 - 1"
  shows "intAdd l 1 = l + 1"
proof -
  have "signed_take_bit 31 (l + 1) = l + 1"
    using assms by (intro signed_take_bit_int_eq_self) auto
  moreover have "(word_of_int l + word_of_int 1 :: 32 word) = word_of_int (l + 1)"
    by simp
  ultimately show ?thesis
    unfolding intAdd_def by (simp only: sint_sbintrunc') simp
qed

lemma numRungs_indefinite: "min (intAdd intIndefinite 1) (int M) = - 2147483647"
proof -
  have "intAdd intIndefinite 1 = - 2147483647"
    unfolding intIndefinite_def by (subst intAdd_1) simp_all
  then show ?thesis by simp
qed

lemma floatQuotient_Some_D:
  assumes "floatQuotient r mn = Some q"
  shows "mn \<noteq> 0" and "q = round32 (r / mn)" and "\<bar>q\<bar> < 2 ^ 128"
  using assms by (auto simp: floatQuotient_def Let_def split: if_splits)

lemma floatQuotient_ge_one:
  assumes "0 < mn" and "mn \<le> r" and "floatQuotient r mn = Some q"
  shows "1 \<le> q"
proof -
  have "1 \<le> r / mn" using assms(1,2) by simp
  then have "1 \<le> round32 (r / mn)" by (rule round32_ge_one)
  then show ?thesis using floatQuotient_Some_D(2)[OF assms(3)] by simp
qed

lemma floatQuotient_self: "mn \<noteq> 0 \<Longrightarrow> floatQuotient mn mn = Some 1"
  by (simp add: floatQuotient_def round32_1)

text \<open>
  The rung count when the quotient is a positive finite \<open>float\<close> and its \<open>log2\<close> is
  not negative and converts to an \<open>int\<close> below \<open>INT_MAX\<close>.
\<close>

lemma intLog2Ratio_finite:
  assumes "floatQuotient r mn = Some q" and "0 < q"
    and "0 \<le> lg q" and "lg q < 2 ^ 31 - 1"
  shows "intLog2Ratio lg r mn = \<lfloor>lg q\<rfloor>"
    and "intAdd (intLog2Ratio lg r mn) 1 = \<lfloor>lg q\<rfloor> + 1"
    and "0 \<le> \<lfloor>lg q\<rfloor>"
proof -
  show f0: "0 \<le> \<lfloor>lg q\<rfloor>" using assms(3) by simp
  have "\<lfloor>lg q\<rfloor> < 2 ^ 31 - 1" using assms(4) by (simp add: floor_less_iff)
  then have f1: "\<lfloor>lg q\<rfloor> < 2 ^ 31 - 1" by simp
  show l: "intLog2Ratio lg r mn = \<lfloor>lg q\<rfloor>"
    using assms(1,2,3) f0 f1 by (simp add: intLog2Ratio_def floatToInt_def truncToInt_def)
  show "intAdd (intLog2Ratio lg r mn) 1 = \<lfloor>lg q\<rfloor> + 1"
    unfolding l using f0 f1 by (intro intAdd_1) simp_all
qed

lemma intLog2Ratio_None: "floatQuotient r mn = None \<Longrightarrow> intLog2Ratio lg r mn = intIndefinite"
  by (simp add: intLog2Ratio_def)

lemma floor_log2_pow:
  assumes "2 ^ k \<le> q" and "q < 2 ^ (k + 1)"
  shows "\<lfloor>log 2 q\<rfloor> = int k"
proof -
  have q0: "0 < q" using assms(1) by (smt (verit) zero_less_power)
  show ?thesis using assms q0 by (simp add: floor_log_eq_powr_iff powr_realpow powr_add)
qed

lemma log2_float_bound:
  assumes "0 < q" and "q < 2 ^ 128"
  shows "log 2 q < 2 ^ 31 - 1"
proof -
  have "log 2 q < 128" using assms by (simp add: log_less_iff powr_realpow)
  then show ?thesis by simp
qed

text \<open>Evaluation of a run from the reduced pair and the rung count.\<close>

lemma computeRungTimestep_run:
  assumes "reducedRange g peers = Some (mn, r)"
    and "min (intAdd (intLog2Ratio lg r mn) 1) (int M) = nR"
    and "rungLoop (sort g) mn nR (0 # replicate M (length g)) = rr"
    and "sortGroupDt g (length g) = (ks, idx)"
  shows "computeRungTimestep lg M g peers =
           Some (\<lparr>minDt = mn, numRungs = nR, substep = 0, rungRanges = rr,
                  dt_drift = replicate M 0\<rparr>, ks, idx)"
proof -
  have "sort g = ks" using fst_sortGroupDt[of g] assms(4) by simp
  then show ?thesis
    unfolding computeRungTimestep_unfold using assms by simp
qed

lemma computeRungTimestep_eval:
  assumes "reducedRange g peers = Some (mn, r)"
    and "floatQuotient r mn = Some q" and "2 ^ k \<le> q" and "q < 2 ^ (k + 1)"
    and "min (int k + 1) (int M) = nR"
    and "rungLoop (sort g) mn nR (0 # replicate M (length g)) = rr"
    and "sortGroupDt g (length g) = (ks, idx)"
  shows "computeRungTimestep (log 2) M g peers =
           Some (\<lparr>minDt = mn, numRungs = nR, substep = 0, rungRanges = rr,
                  dt_drift = replicate M 0\<rparr>, ks, idx)"
proof -
  have fl: "\<lfloor>log 2 q\<rfloor> = int k" using assms(3,4) by (rule floor_log2_pow)
  have q0: "0 < q" using assms(3) by (smt (verit) zero_less_power)
  have l0: "0 \<le> log 2 q" using fl by (smt (verit) floor_less_zero of_nat_0_le_iff)
  have "q < 2 ^ 128" using floatQuotient_Some_D(3)[OF assms(2)] by simp
  then have l1: "log 2 q < 2 ^ 31 - 1" using q0 by (intro log2_float_bound)
  have "intAdd (intLog2Ratio (log 2) r mn) 1 = int k + 1"
    using intLog2Ratio_finite(2)[where lg = "log 2", OF assms(2) q0 l0 l1] fl by simp
  then have nR: "min (intAdd (intLog2Ratio (log 2) r mn) 1) (int M) = nR"
    using assms(5) by (simp only:)
  show ?thesis using assms(1) nR assms(6,7) by (rule computeRungTimestep_run)
qed

lemma computeRungTimestep_Some_D:
  assumes "computeRungTimestep lg M g peers = Some (ts, ks, idx)"
  obtains mn r where "reducedRange g peers = Some (mn, r)"
    and "minDt ts = mn"
    and "numRungs ts = min (intAdd (intLog2Ratio lg r mn) 1) (int M)"
    and "rungRanges ts = rungLoop (sort g) mn (numRungs ts) (0 # replicate M (length g))"
    and "substep ts = 0" and "dt_drift ts = replicate M 0"
    and "sortGroupDt g (length g) = (ks, idx)" and "ks = sort g"
proof -
  obtain mm where mm: "reducedRange g peers = Some mm"
    using assms unfolding computeRungTimestep_unfold
    by (cases "reducedRange g peers") simp_all
  let ?nR = "min (intAdd (intLog2Ratio lg (snd mm) (fst mm)) 1) (int M)"
  have res: "(\<lparr>minDt = fst mm, numRungs = ?nR, substep = 0,
                      rungRanges = rungLoop (sort g) (fst mm) ?nR (0 # replicate M (length g)),
                      dt_drift = replicate M 0\<rparr>, sort g, snd (sortGroupDt g (length g)))
             = (ts, ks, idx)"
    using assms unfolding computeRungTimestep_unfold mm
    by (simp only: option.case option.inject)
  have ts: "ts = \<lparr>minDt = fst mm, numRungs = ?nR, substep = 0,
                      rungRanges = rungLoop (sort g) (fst mm) ?nR (0 # replicate M (length g)),
                      dt_drift = replicate M 0\<rparr>"
    using arg_cong[OF res, of fst] by simp
  have ks: "ks = sort g" using arg_cong[OF res, of "\<lambda>e. fst (snd e)"] by simp
  have idx: "idx = snd (sortGroupDt g (length g))"
    using arg_cong[OF res, of "\<lambda>e. snd (snd e)"] by simp
  have "sortGroupDt g (length g) = (ks, idx)"
    using ks idx fst_sortGroupDt[of g] by (simp add: prod_eq_iff)
  then show ?thesis using that[of "fst mm" "snd mm"] mm ts ks by simp
qed

lemma reducedRange_Some_D:
  assumes "reducedRange g peers = Some (mn, r)"
  shows "g \<noteq> []" and "[] \<notin> set peers"
    and "mn = Min (\<Union> (set ` set (g # peers)))" and "r = Min (fastRef ` set (g # peers))"
    and "mn \<le> r"
proof -
  show g: "g \<noteq> []" and q: "[] \<notin> set peers" using assms reducedRange_None[of g peers] by auto
  show "mn = Min (\<Union> (set ` set (g # peers)))" and "r = Min (fastRef ` set (g # peers))"
    using assms reducedRange_Some[OF g q] by simp_all
  then show "mn \<le> r" using reduced_min_le_ref[OF g q] by simp
qed

lemma computeRungTimestep_defined:
  assumes red: "reducedRange g peers = Some (mn, rf)"
  obtains ts idx where "computeRungTimestep lg M g peers = Some (ts, sort g, idx)"
    and "minDt ts = mn"
    and "numRungs ts = min (intAdd (intLog2Ratio lg rf mn) 1) (int M)"
    and "rungRanges ts = rungLoop (sort g) mn (numRungs ts) (0 # replicate M (length g))"
    and "substep ts = 0" and "dt_drift ts = replicate M 0"
proof -
  let ?nR = "min (intAdd (intLog2Ratio lg rf mn) 1) (int M)"
  let ?ts = "\<lparr>minDt = mn, numRungs = ?nR, substep = 0,
              rungRanges = rungLoop (sort g) mn ?nR (0 # replicate M (length g)),
              dt_drift = replicate M 0\<rparr>"
  have "computeRungTimestep lg M g peers = Some (?ts, sort g, snd (sortGroupDt g (length g)))"
    unfolding computeRungTimestep_unfold red by simp
  then show ?thesis using that[of ?ts] by simp
qed

text \<open>Evaluation of a worker's contribution and of the reduction of two or three.\<close>

lemma localRange_eval:
  assumes "length g = n" and "0 < n" and "fastIndex n = j" and "sort g = ks"
    and "ks ! 0 = a" and "ks ! j = b"
  shows "localRange g = Some (a, b)"
proof -
  have "g \<noteq> []" using assms(1,2) by auto
  then show ?thesis using assms by (simp add: localRange_eq)
qed

lemma reducedRange_eval:
  assumes "localRange g = Some mine" and "map localRange peers = map Some others"
    and "mpiAllreduceMin mine others = mm"
  shows "reducedRange g peers = Some mm"
proof -
  have "those (map Some others) = Some others" by (induction others) simp_all
  then show ?thesis using assms by (simp add: reducedRange_def)
qed

lemma rungRanges_nth:
  assumes "M \<le> 31" and "j \<le> M" and "nR \<le> int M"
  shows "rungLoop ks mn nR (0 # replicate M n) ! j =
           (if j = 0 then 0 else if int j < nR then lowerBoundGpu ks (2 ^ j * mn) else n)"
proof -
  have len: "j < length (0 # replicate M n)" using assms(2) by simp
  show ?thesis
  proof (cases "1 \<le> j \<and> int j < nR")
    case True
    then have "j < 31" using assms by linarith
    then have "shl1 j = 2 ^ j" by (rule shl1_pow)
    then show ?thesis using True by (simp add: rungLoop_nth[OF len])
  next
    case False
    then have "rungLoop ks mn nR (0 # replicate M n) ! j = (0 # replicate M n) ! j"
      unfolding rungLoop_nth[OF len] by (simp only: if_False)
    also have "\<dots> = (if j = 0 then 0 else n)" using assms(2) by (cases j) simp_all
    finally show ?thesis using False by auto
  qed
qed

lemma rungRanges_sorted:
  assumes "M \<le> 31" and "nR \<le> int M" and "0 \<le> mn" and "sorted ks" and "length ks = n"
  shows "sorted (rungLoop ks mn nR (0 # replicate M n))"
proof -
  let ?rr = "rungLoop ks mn nR (0 # replicate M n)"
  have len: "length ?rr = M + 1" by (simp add: rungLoop_length)
  have "?rr ! i \<le> ?rr ! j" if "i \<le> j" "j < length ?rr" for i j
  proof -
    have jM: "j \<le> M" and iM: "i \<le> M" using that len by simp_all
    have lb: "lowerBoundGpu ks v \<le> n" for v using lowerBoundGpu_spec(1)[OF assms(4)] assms(5) by simp
    have "(2::real) ^ i \<le> 2 ^ j" using that(1) by (simp add: power_increasing)
    then have "2 ^ i * mn \<le> 2 ^ j * mn" using assms(3) by (simp add: mult_right_mono)
    then have mono: "lowerBoundGpu ks (2 ^ i * mn) \<le> lowerBoundGpu ks (2 ^ j * mn)"
      using lowerBoundGpu_mono[OF assms(4)] by simp
    show ?thesis
      unfolding rungRanges_nth[OF assms(1) jM assms(2)] rungRanges_nth[OF assms(1) iM assms(2)]
      using that(1) lb mono by auto
  qed
  then show ?thesis unfolding sorted_iff_nth_mono by blast
qed


subsection \<open>Runs outside the range of the rung count\<close>

text \<open>
  One worker with positive time-steps whose quotient \<open>2^100 / 2^-100\<close> is beyond the
  largest \<open>float\<close>: the quotient is \<open>+inf\<close>, the conversion delivers \<open>INT_MIN\<close> and
  \<open>numRungs = INT_MIN + 1\<close>.
\<close>

lemma reducedRange_example_overflow:
  "reducedRange [1 / 2 ^ 100, 2 ^ 100, 2 ^ 100] [] = Some (1 / 2 ^ 100, 2 ^ 100)"
proof (rule reducedRange_eval[where others = "[]"])
  show "localRange [1 / 2 ^ 100, 2 ^ 100, 2 ^ 100] = Some (1 / 2 ^ 100, 2 ^ 100)"
    by (rule localRange_eval[where n = 3 and j = 1 and ks = "[1 / 2 ^ 100, 2 ^ 100, 2 ^ 100]"])
       (simp_all add: fastIndex_3)
qed (simp_all add: mpiAllreduceMin_def)

lemma floatQuotient_example_overflow: "floatQuotient (2 ^ 100) (1 / 2 ^ 100) = None"
proof -
  have "round32 (2 ^ 200) = 2 ^ 200"
    by (subst round32_eval[where k = 200 and n = "2 ^ 23"])
       (simp_all add: roundHalfEven_def powr_minus)
  then show ?thesis by (simp add: floatQuotient_def)
qed

lemma run_example_overflow:
  "computeRungTimestep (log 2) 4 [1 / 2 ^ 100, 2 ^ 100, 2 ^ 100] [] =
     Some (\<lparr>minDt = 1 / 2 ^ 100, numRungs = - 2147483647, substep = 0,
            rungRanges = [0, 3, 3, 3, 3], dt_drift = replicate 4 0\<rparr>,
           [1 / 2 ^ 100, 2 ^ 100, 2 ^ 100], [0, 1, 2])"
proof (rule computeRungTimestep_run[OF reducedRange_example_overflow])
  show "min (intAdd (intLog2Ratio (log 2) (2 ^ 100) (1 / 2 ^ 100)) 1) (int 4) = - 2147483647"
    unfolding intLog2Ratio_None[OF floatQuotient_example_overflow] by (rule numRungs_indefinite)
  show "rungLoop (sort [1 / 2 ^ 100, 2 ^ 100, 2 ^ 100]) (1 / 2 ^ 100) (- 2147483647)
          (0 # replicate 4 (length [1 / 2 ^ 100, 2 ^ 100, 2 ^ 100 :: real])) = [0, 3, 3, 3, 3]"
    by code_simp
  show "sortGroupDt [1 / 2 ^ 100, 2 ^ 100, 2 ^ 100] (length [1 / 2 ^ 100, 2 ^ 100, 2 ^ 100 :: real])
          = ([1 / 2 ^ 100, 2 ^ 100, 2 ^ 100], [0, 1, 2])" by code_simp
qed

text \<open>
  One worker whose two groups have the time-step zero: the quotient \<open>0 / 0\<close> is NaN.
\<close>

lemma run_example_zero:
  "computeRungTimestep (log 2) 4 [0, 0] [] =
     Some (\<lparr>minDt = 0, numRungs = - 2147483647, substep = 0,
            rungRanges = [0, 2, 2, 2, 2], dt_drift = replicate 4 0\<rparr>, [0, 0], [0, 1])"
proof (rule computeRungTimestep_run[where mn = 0 and r = 0])
  show "reducedRange [0, 0] [] = Some (0, 0)"
  proof (rule reducedRange_eval[where others = "[]"])
    show "localRange [0, 0] = Some (0, 0)"
      by (rule localRange_eval[where n = 2 and j = 0 and ks = "[0, 0]"])
         (simp_all add: fastIndex_2)
  qed (simp_all add: mpiAllreduceMin_def)
  have "floatQuotient 0 0 = None" by (simp add: floatQuotient_def)
  then have "intLog2Ratio (log 2) 0 0 = intIndefinite" by (rule intLog2Ratio_None)
  then show "min (intAdd (intLog2Ratio (log 2) 0 0) 1) (int 4) = - 2147483647"
    by (simp only: numRungs_indefinite)
  show "rungLoop (sort [0, 0]) 0 (- 2147483647) (0 # replicate 4 (length [0, 0 :: real]))
          = [0, 2, 2, 2, 2]"
    by code_simp
  show "sortGroupDt [0, 0] (length [0, 0 :: real]) = ([0, 0], [0, 1])" by code_simp
qed

text \<open>
  One worker with negative values: the quotient is \<open>1 / 8\<close>, its \<open>log2\<close> is -3 and
  \<open>numRungs = -2\<close>, with no conversion out of range.
\<close>

lemma run_example_negative:
  "computeRungTimestep (log 2) 4 [- 8, - 1, - 1] [] =
     Some (\<lparr>minDt = - 8, numRungs = - 2, substep = 0,
            rungRanges = [0, 3, 3, 3, 3], dt_drift = replicate 4 0\<rparr>, [- 8, - 1, - 1], [0, 1, 2])"
proof (rule computeRungTimestep_run[where mn = "- 8" and r = "- 1"])
  show "reducedRange [- 8, - 1, - 1] [] = Some (- 8, - 1)"
  proof (rule reducedRange_eval[where others = "[]"])
    show "localRange [- 8, - 1, - 1] = Some (- 8, - 1)"
      by (rule localRange_eval[where n = 3 and j = 1 and ks = "[- 8, - 1, - 1]"])
         (simp_all add: fastIndex_3)
  qed (simp_all add: mpiAllreduceMin_def)
  have "round32 (1 / 8) = 1 / 8"
    by (subst round32_eval[where k = "-3" and n = "2 ^ 23"])
       (simp_all add: roundHalfEven_def powr_minus)
  then have fq: "floatQuotient (- 1) (- 8) = Some (1 / 8)" by (simp add: floatQuotient_def)
  have "log 2 (2 powr (- 3)) = - 3" by (rule log_powr_cancel) simp_all
  moreover have "(2::real) powr (- 3) = 1 / 8" by (simp add: powr_minus)
  ultimately have lg: "log 2 (1 / 8) = - 3" by simp
  have "intLog2Ratio (log 2) (- 1) (- 8) = - 3"
    by (simp add: intLog2Ratio_def fq lg floatToInt_def truncToInt_def)
  moreover have "intAdd (- 3) 1 = - 3 + 1" by (rule intAdd_1) simp_all
  ultimately show "min (intAdd (intLog2Ratio (log 2) (- 1) (- 8)) 1) (int 4) = - 2" by simp
  show "rungLoop (sort [- 8, - 1, - 1]) (- 8) (- 2) (0 # replicate 4 (length [- 8, - 1, - 1 :: real]))
          = [0, 3, 3, 3, 3]"
    by code_simp
  show "sortGroupDt [- 8, - 1, - 1] (length [- 8, - 1, - 1 :: real]) = ([- 8, - 1, - 1], [0, 1, 2])"
    by code_simp
qed


subsection \<open>C1: the rung's lower bound never exceeds a group's own time-step\<close>

text \<open>
  Claim C1. Whenever \<open>computeRungTimestep\<close> returns, every group placed in rung \<open>r\<close>
  (\<open>1 \<le> r \<le> numRungs\<close>), that is every sorted position \<open>q\<close> with
  \<open>rungRanges[r-1] \<le> q < rungRanges[r]\<close>, is a group of the worker, and the time-step
  this group had in the array before sorting (at its original index \<open>groupIndices[q]\<close>)
  is at least \<open>2^(r-1) * minDt\<close>.
\<close>

theorem rung_lower_bound:
  assumes run: "computeRungTimestep lg maxNumRungs groupDt peers = Some (ts, sortedDt, groupIndices)"
    and M: "maxNumRungs \<le> 31"
    and r: "1 \<le> r" "int r \<le> numRungs ts"
    and q: "rungRanges ts ! (r - 1) \<le> q" "q < rungRanges ts ! r"
  shows "q < length groupDt \<and> groupIndices ! q < length groupDt
       \<and> 2 ^ (r - 1) * minDt ts \<le> groupDt ! (groupIndices ! q)"
proof -
  from run obtain mn rf where red: "reducedRange groupDt peers = Some (mn, rf)"
    and mdt: "minDt ts = mn"
    and nr: "numRungs ts = min (intAdd (intLog2Ratio lg rf mn) 1) (int maxNumRungs)"
    and rr: "rungRanges ts =
               rungLoop (sort groupDt) mn (numRungs ts) (0 # replicate maxNumRungs (length groupDt))"
    and srt: "sortGroupDt groupDt (length groupDt) = (sortedDt, groupIndices)"
    and ks: "sortedDt = sort groupDt"
    by (rule computeRungTimestep_Some_D)
  let ?n = "length groupDt"
  let ?init = "0 # replicate maxNumRungs ?n"
  have rM: "r \<le> maxNumRungs" using r(2) nr by simp
  have sorted: "sorted (sort groupDt)" by simp
  have upper: "rungRanges ts ! r \<le> ?n"
  proof (cases "int r < numRungs ts")
    case True
    then show ?thesis using rM r(1) lowerBoundGpu_spec(1)[OF sorted]
      by (simp add: rr rungLoop_nth)
  next
    case False
    then show ?thesis using rM r(1) by (cases r) (simp_all add: rr rungLoop_nth)
  qed
  then have pn: "q < ?n" using q(2) by simp
  have perm: "groupIndices ! q < ?n" "groupDt ! (groupIndices ! q) = sort groupDt ! q"
    using sortGroupDt_perm(3,4)[OF srt pn] ks by simp_all
  have mem: "sort groupDt ! q \<in> set groupDt"
    using pn nth_mem[of q "sort groupDt"] by simp
  have "2 ^ (r - 1) * mn \<le> sort groupDt ! q"
  proof (cases "r = 1")
    case True
    have "mn = Min (\<Union> (set ` set (groupDt # peers)))" using reducedRange_Some_D(3)[OF red] .
    then have "mn \<le> sort groupDt ! q" using reduced_min_le[OF mem] by simp
    then show ?thesis using True by simp
  next
    case False
    then have r1: "1 \<le> r - 1" "int (r - 1) < numRungs ts" "r - 1 < length ?init" "r - 1 < 31"
      using r rM M by auto
    have "rungRanges ts ! (r - 1) = lowerBoundGpu (sort groupDt) (real_of_int (shl1 (r - 1)) * mn)"
      using r1(1,2,3) by (simp add: rr rungLoop_nth)
    also have "shl1 (r - 1) = 2 ^ (r - 1)" using r1(4) by (rule shl1_pow)
    finally have "lowerBoundGpu (sort groupDt) (2 ^ (r - 1) * mn) \<le> q" using q(1) by simp
    then have "2 ^ (r - 1) * mn < sort groupDt ! q"
      using lowerBoundGpu_spec(3)[OF sorted, of "2 ^ (r - 1) * mn" q] pn by simp
    then show ?thesis by simp
  qed
  then show ?thesis using pn perm mdt by simp
qed

text \<open>
  A run with two workers and the exact \<open>log2\<close>: the caller holds five groups, its peer
  three; the reduced pair is \<open>(1, 2)\<close> and there are two rungs.
\<close>

lemma reducedRange_example_two_rungs: "reducedRange [4, 1, 2, 2, 4] [[8, 3, 16]] = Some (1, 2)"
proof (rule reducedRange_eval[where mine = "(1, 2)" and others = "[(3, 8)]"])
  show "localRange [4, 1, 2, 2, 4] = Some (1, 2)"
    by (rule localRange_eval[where n = 5 and j = 2 and ks = "[1, 2, 2, 4, 4]"])
       (simp_all add: fastIndex_5)
  have "localRange [8, 3, 16] = Some (3, 8)"
    by (rule localRange_eval[where n = 3 and j = 1 and ks = "[3, 8, 16]"])
       (simp_all add: fastIndex_3)
  then show "map localRange [[8, 3, 16]] = map Some [(3, 8)]" by simp
  show "mpiAllreduceMin (1, 2) [(3, 8)] = (1, 2)" by (simp add: mpiAllreduceMin_def)
qed

lemma run_example_two_rungs:
  "computeRungTimestep (log 2) 4 [4, 1, 2, 2, 4] [[8, 3, 16]] =
     Some (\<lparr>minDt = 1, numRungs = 2, substep = 0, rungRanges = [0, 3, 5, 5, 5],
            dt_drift = replicate 4 0\<rparr>, [1, 2, 2, 4, 4], [1, 2, 3, 0, 4])"
proof (rule computeRungTimestep_eval[where k = 1 and r = 2 and q = 2])
  show "reducedRange [4, 1, 2, 2, 4] [[8, 3, 16]] = Some (1, 2)"
    by (rule reducedRange_example_two_rungs)
  show "floatQuotient 2 1 = Some 2" by (simp add: floatQuotient_def round32_2)
  show "2 ^ 1 \<le> (2::real)" "(2::real) < 2 ^ (1 + 1)" by simp_all
  show "min (int 1 + 1) (int 4) = 2" by simp
  show "rungLoop (sort [4, 1, 2, 2, 4]) 1 2 (0 # replicate 4 (length [4, 1, 2, 2, 4 :: real]))
          = [0, 3, 5, 5, 5]" by code_simp
  show "sortGroupDt [4, 1, 2, 2, 4] (length [4, 1, 2, 2, 4 :: real])
          = ([1, 2, 2, 4, 4], [1, 2, 3, 0, 4])" by code_simp
qed

theorem rung_lower_bound_witness:
  "computeRungTimestep (log 2) 4 [4, 1, 2, 2, 4] [[8, 3, 16]] =
     Some (\<lparr>minDt = 1, numRungs = 2, substep = 0, rungRanges = [0, 3, 5, 5, 5],
            dt_drift = replicate 4 0\<rparr>, [1, 2, 2, 4, 4], [1, 2, 3, 0, 4])
   \<and> (4::nat) \<le> 31 \<and> (1::nat) \<le> 2 \<and> int 2 \<le> 2
   \<and> [0, 3, 5, 5, 5] ! (2 - 1) \<le> (3::nat) \<and> (3::nat) < [0, 3, 5, 5, 5] ! 2
   \<and> (3::nat) < length [4, 1, 2, 2, 4 :: real]
   \<and> [1, 2, 3, 0, 4] ! 3 < length [4, 1, 2, 2, 4 :: real]
   \<and> (2::real) ^ (2 - 1) * 1 \<le> [4, 1, 2, 2, 4] ! ([1, 2, 3, 0, 4] ! 3)"
  using rung_lower_bound[OF run_example_two_rungs, of 2 3] run_example_two_rungs
  by simp

subsection \<open>C2: the invariant of the returned \<open>Timestep\<close>\<close>

text \<open>
  Claim C2, as amended. Let every worker hold at least one group and every time-step be
  strictly positive, let the \<open>float\<close> quotient \<open>q\<close> of the reduced reference \<open>refDt\<close> by
  the reduced minimum \<open>minDt\<close> be finite (no overflow), and let the library's \<open>log2\<close>
  map \<open>q\<close> into \<open>[0, 2^31 - 1)\<close>. Then \<open>computeRungTimestep\<close> returns a \<open>Timestep\<close>
  whose \<open>rungRanges\<close> is non-decreasing, starts with 0 and holds the worker's number of
  groups at every index from \<open>numRungs\<close> on, and \<open>1 \<le> numRungs \<le> maxNumRungs\<close> (for a
  constant \<open>maxNumRungs\<close> between 1 and 31, so that \<open>1 << rung\<close> is a power of two).
\<close>

theorem rung_ranges_invariant:
  assumes "groupDt \<noteq> []" and "[] \<notin> set peers"
    and "\<forall>e \<in> \<Union> (set ` set (groupDt # peers)). 0 < e"
    and "floatQuotient (Min (fastRef ` set (groupDt # peers)))
                       (Min (\<Union> (set ` set (groupDt # peers)))) = Some q"
    and "0 \<le> lg q" and "lg q < 2 ^ 31 - 1"
    and "1 \<le> maxNumRungs" and "maxNumRungs \<le> 31"
  shows "\<exists>ts sortedDt groupIndices.
           computeRungTimestep lg maxNumRungs groupDt peers = Some (ts, sortedDt, groupIndices)
         \<and> sorted (rungRanges ts) \<and> length (rungRanges ts) = maxNumRungs + 1
         \<and> rungRanges ts ! 0 = 0
         \<and> (\<forall>j. numRungs ts \<le> int j \<and> j \<le> maxNumRungs \<longrightarrow> rungRanges ts ! j = length groupDt)
         \<and> 1 \<le> numRungs ts \<and> numRungs ts \<le> int maxNumRungs"
proof -
  let ?mn = "Min (\<Union> (set ` set (groupDt # peers)))"
  let ?rf = "Min (fastRef ` set (groupDt # peers))"
  have red: "reducedRange groupDt peers = Some (?mn, ?rf)"
    using reducedRange_Some[OF assms(1,2)] .
  have "?mn \<in> \<Union> (set ` set (groupDt # peers))" using assms(1) by (intro Min_in) auto
  then have pos: "0 < ?mn" using assms(3) by blast
  have le: "?mn \<le> ?rf" using reducedRange_Some_D(5)[OF red] .
  have q1: "1 \<le> q" using pos le assms(4) by (rule floatQuotient_ge_one)
  then have q0: "0 < q" by simp
  note L = intLog2Ratio_finite[where lg = lg, OF assms(4) q0 assms(5,6)]
  from computeRungTimestep_defined[OF red, of lg maxNumRungs]
  obtain ts idx where run: "computeRungTimestep lg maxNumRungs groupDt peers = Some (ts, sort groupDt, idx)"
    and nr: "numRungs ts = min (intAdd (intLog2Ratio lg ?rf ?mn) 1) (int maxNumRungs)"
    and rr: "rungRanges ts = rungLoop (sort groupDt) ?mn (numRungs ts)
                               (0 # replicate maxNumRungs (length groupDt))"
    by blast
  have nr': "numRungs ts = min (\<lfloor>lg q\<rfloor> + 1) (int maxNumRungs)" using nr L(2) by simp
  have nrM: "numRungs ts \<le> int maxNumRungs" using nr' by simp
  have nr1: "1 \<le> numRungs ts" using nr' L(3) assms(7) by simp
  have srt: "sorted (rungRanges ts)"
    unfolding rr using assms(8) nrM pos by (intro rungRanges_sorted) simp_all
  have len: "length (rungRanges ts) = maxNumRungs + 1" by (simp add: rr rungLoop_length)
  have z: "rungRanges ts ! 0 = 0" unfolding rr by (simp add: rungRanges_nth[OF assms(8) _ nrM])
  have tail: "\<forall>j. numRungs ts \<le> int j \<and> j \<le> maxNumRungs \<longrightarrow> rungRanges ts ! j = length groupDt"
    unfolding rr using nr1 by (auto simp: rungRanges_nth[OF assms(8) _ nrM])
  show ?thesis using run srt len z tail nr1 nrM by blast
qed

text \<open>
  Two workers with the exact \<open>log2\<close>: the reduced pair is \<open>(1, 4)\<close>, the quotient 4 and
  there are three rungs.
\<close>

lemma reducedRange_example_three_rungs: "reducedRange [1, 2, 4, 4, 8] [[6, 5]] = Some (1, 4)"
proof (rule reducedRange_eval[where mine = "(1, 4)" and others = "[(5, 5)]"])
  show "localRange [1, 2, 4, 4, 8] = Some (1, 4)"
    by (rule localRange_eval[where n = 5 and j = 2 and ks = "[1, 2, 4, 4, 8]"])
       (simp_all add: fastIndex_5)
  have "localRange [6, 5] = Some (5, 5)"
    by (rule localRange_eval[where n = 2 and j = 0 and ks = "[5, 6]"])
       (simp_all add: fastIndex_2)
  then show "map localRange [[6, 5]] = map Some [(5, 5)]" by simp
  show "mpiAllreduceMin (1, 4) [(5, 5)] = (1, 4)" by (simp add: mpiAllreduceMin_def)
qed

theorem rung_ranges_invariant_witness:
  "[1, 2, 4, 4, 8 :: real] \<noteq> [] \<and> [] \<notin> set [[6, 5 :: real]]
   \<and> list_all (\<lambda>e. 0 < e) (concat ([1, 2, 4, 4, 8] # [[6, 5 :: real]]))
   \<and> floatQuotient (Min (fastRef ` set ([1, 2, 4, 4, 8] # [[6, 5]])))
                    (Min (\<Union> (set ` set ([1, 2, 4, 4, 8] # [[6, 5]])))) = Some 4
   \<and> 0 \<le> log 2 (4 :: real) \<and> log 2 (4 :: real) < 2 ^ 31 - 1
   \<and> (1::nat) \<le> 4 \<and> (4::nat) \<le> 31
   \<and> (\<exists>ts sortedDt groupIndices.
           computeRungTimestep (log 2) 4 [1, 2, 4, 4, 8] [[6, 5]] = Some (ts, sortedDt, groupIndices)
         \<and> sorted (rungRanges ts) \<and> length (rungRanges ts) = 4 + 1
         \<and> rungRanges ts ! 0 = 0
         \<and> (\<forall>j. numRungs ts \<le> int j \<and> j \<le> 4 \<longrightarrow> rungRanges ts ! j = length [1, 2, 4, 4, 8 :: real])
         \<and> 1 \<le> numRungs ts \<and> numRungs ts \<le> int 4)"
proof -
  note red = reducedRange_example_three_rungs
  have mn: "Min (\<Union> (set ` set ([1, 2, 4, 4, 8] # [[6, 5 :: real]]))) = 1"
    using reducedRange_Some_D(3)[OF red] by (rule sym)
  have rf: "Min (fastRef ` set ([1, 2, 4, 4, 8] # [[6, 5]])) = 4"
    using reducedRange_Some_D(4)[OF red] by (rule sym)
  have fq: "floatQuotient (Min (fastRef ` set ([1, 2, 4, 4, 8] # [[6, 5]])))
                    (Min (\<Union> (set ` set ([1, 2, 4, 4, 8] # [[6, 5]])))) = Some 4"
    unfolding mn rf by (simp add: floatQuotient_def round32_4)
  have h: "[1, 2, 4, 4, 8 :: real] \<noteq> []" "[] \<notin> set [[6, 5 :: real]]"
    "\<forall>e \<in> \<Union> (set ` set ([1, 2, 4, 4, 8] # [[6, 5 :: real]])). 0 < e"
    "(1::nat) \<le> 4" "(4::nat) \<le> 31"
    by simp_all
  have l0: "0 \<le> log 2 (4 :: real)" by simp
  have l1: "log 2 (4 :: real) < 2 ^ 31 - 1" by (rule log2_float_bound) simp_all
  note t = rung_ranges_invariant[where lg = "log 2", OF h(1,2,3) fq l0 l1 h(4,5)]
  show ?thesis using t fq l0 l1 by simp
qed

text \<open>
  The claim as stated, for every non-empty input, fails on positive time-steps whose
  quotient overflows the \<open>float\<close> range, and on negative values, where nothing is out
  of range: \<open>numRungs\<close> is \<open>INT_MIN + 1\<close> in the first run and -2 in the second, not at
  least 1.
\<close>

theorem rung_ranges_invariant_counterexample:
  "computeRungTimestep (log 2) 4 [1 / 2 ^ 100, 2 ^ 100, 2 ^ 100] [] =
     Some (\<lparr>minDt = 1 / 2 ^ 100, numRungs = - 2147483647, substep = 0,
            rungRanges = [0, 3, 3, 3, 3], dt_drift = replicate 4 0\<rparr>,
           [1 / 2 ^ 100, 2 ^ 100, 2 ^ 100], [0, 1, 2])
   \<and> list_all (\<lambda>e. 0 < e) [1 / 2 ^ 100, 2 ^ 100, 2 ^ 100 :: real]
   \<and> computeRungTimestep (log 2) 4 [- 8, - 1, - 1] [] =
     Some (\<lparr>minDt = - 8, numRungs = - 2, substep = 0,
            rungRanges = [0, 3, 3, 3, 3], dt_drift = replicate 4 0\<rparr>, [- 8, - 1, - 1], [0, 1, 2])"
  using run_example_overflow run_example_negative by simp

subsection \<open>C3: the number of rungs\<close>

text \<open>
  Claim C3, as amended. Let \<open>(mDt, refDt)\<close> be the reduced pair, \<open>mDt\<close> the global
  minimum time-step and \<open>refDt\<close> the minimum over the workers of their fast-fraction
  elements (the element of the sorted array at the index \<open>float(0.4) * numGroups\<close>,
  computed in \<open>float\<close> and truncated). Let \<open>mDt\<close> be strictly positive, let
  \<open>q = refDt / mDt\<close>, rounded to \<open>float\<close>, be finite, and let the library's \<open>log2\<close> map
  \<open>q\<close> into \<open>[0, 2^31 - 1)\<close> and 1 to 0. Then \<open>computeRungTimestep\<close> returns with
  \<open>numRungs = min(floor(log2(q)) + 1, maxNumRungs)\<close>; whenever \<open>refDt \<le> mDt\<close>, in
  particular when all groups have the same time-step, \<open>numRungs\<close> is 1 and the single
  rung spans all groups of the worker (\<open>rungRanges\<close> is 0 followed by the group count).
\<close>

theorem num_rungs_formula:
  assumes "reducedRange groupDt peers = Some (mDt, refDt)" and "0 < mDt"
    and "floatQuotient refDt mDt = Some q"
    and "0 \<le> lg q" and "lg q < 2 ^ 31 - 1" and "lg 1 = 0"
    and "1 \<le> maxNumRungs"
  shows "\<exists>ts sortedDt groupIndices.
           computeRungTimestep lg maxNumRungs groupDt peers = Some (ts, sortedDt, groupIndices)
         \<and> minDt ts = mDt
         \<and> mDt = Min (\<Union> (set ` set (groupDt # peers)))
         \<and> refDt = Min (fastRef ` set (groupDt # peers))
         \<and> q = round32 (refDt / mDt)
         \<and> numRungs ts = min (\<lfloor>lg q\<rfloor> + 1) (int maxNumRungs)
         \<and> (refDt \<le> mDt \<or> (\<forall>e \<in> \<Union> (set ` set (groupDt # peers)). e = mDt) \<longrightarrow>
              numRungs ts = 1
            \<and> rungRanges ts = 0 # replicate maxNumRungs (length groupDt))"
proof -
  note D = reducedRange_Some_D[OF assms(1)]
  have q1: "1 \<le> q" using assms(2) D(5) assms(3) by (rule floatQuotient_ge_one)
  then have q0: "0 < q" by simp
  note L = intLog2Ratio_finite[where lg = lg, OF assms(3) q0 assms(4,5)]
  from computeRungTimestep_defined[OF assms(1), of lg maxNumRungs]
  obtain ts idx where run: "computeRungTimestep lg maxNumRungs groupDt peers = Some (ts, sort groupDt, idx)"
    and mn: "minDt ts = mDt"
    and nr0: "numRungs ts = min (intAdd (intLog2Ratio lg refDt mDt) 1) (int maxNumRungs)"
    and rr: "rungRanges ts = rungLoop (sort groupDt) mDt (numRungs ts)
                               (0 # replicate maxNumRungs (length groupDt))"
    by blast
  have nr: "numRungs ts = min (\<lfloor>lg q\<rfloor> + 1) (int maxNumRungs)" using nr0 L(2) by simp
  have qr: "q = round32 (refDt / mDt)" using assms(3) by (rule floatQuotient_Some_D(2))
  have single: "numRungs ts = 1 \<and> rungRanges ts = 0 # replicate maxNumRungs (length groupDt)"
    if "refDt \<le> mDt"
  proof -
    have "refDt = mDt" using that D(5) by simp
    then have "refDt / mDt = 1" using assms(2) by simp
    then have "q = 1" using qr by (simp add: round32_1)
    then have one: "numRungs ts = 1" using nr assms(6,7) by simp
    then show ?thesis using rr by (simp add: rungLoop_def)
  qed
  have eq: "refDt \<le> mDt" if all: "\<forall>e \<in> \<Union> (set ` set (groupDt # peers)). e = mDt"
  proof -
    have "Min (fastRef ` set (groupDt # peers)) \<in> fastRef ` set (groupDt # peers)"
      by (rule Min_in) auto
    then obtain w where w: "w \<in> set (groupDt # peers)" and r: "refDt = fastRef w"
      using D(4) by auto
    have "w \<noteq> []" using w D(1,2) by auto
    then have "fastRef w \<in> \<Union> (set ` set (groupDt # peers))" using fastRef_mem w by blast
    then show ?thesis using all r by simp
  qed
  show ?thesis using run mn nr qr single eq D(3,4) by blast
qed

text \<open>A run in which all groups of both workers have the time-step 3.\<close>

lemma run_example_equal_dt:
  "reducedRange [3, 3, 3] [[3, 3]] = Some (3, 3)"
proof (rule reducedRange_eval[where mine = "(3, 3)" and others = "[(3, 3)]"])
  show "localRange [3, 3, 3] = Some (3, 3)"
    by (rule localRange_eval[where n = 3 and j = 1 and ks = "[3, 3, 3]"])
       (simp_all add: fastIndex_3)
  have "localRange [3, 3] = Some (3, 3)"
    by (rule localRange_eval[where n = 2 and j = 0 and ks = "[3, 3]"])
       (simp_all add: fastIndex_2)
  then show "map localRange [[3, 3]] = map Some [(3, 3)]" by simp
  show "mpiAllreduceMin (3, 3) [(3, 3)] = (3, 3)" by (simp add: mpiAllreduceMin_def)
qed

theorem num_rungs_formula_witness:
  "reducedRange [3, 3, 3] [[3, 3]] = Some (3, 3) \<and> (0::real) < 3
   \<and> floatQuotient 3 3 = Some 1
   \<and> 0 \<le> log 2 (1 :: real) \<and> log 2 (1 :: real) < 2 ^ 31 - 1 \<and> log 2 (1 :: real) = 0
   \<and> (1::nat) \<le> 4
   \<and> (3::real) \<le> 3 \<and> list_all (\<lambda>e. e = 3) (concat ([3, 3, 3] # [[3, 3 :: real]]))
   \<and> (\<exists>ts sortedDt groupIndices.
           computeRungTimestep (log 2) 4 [3, 3, 3] [[3, 3]] = Some (ts, sortedDt, groupIndices)
         \<and> minDt ts = 3
         \<and> (3::real) = Min (\<Union> (set ` set ([3, 3, 3] # [[3, 3]])))
         \<and> (3::real) = Min (fastRef ` set ([3, 3, 3] # [[3, 3]]))
         \<and> (1::real) = round32 (3 / 3)
         \<and> numRungs ts = min (\<lfloor>log 2 (1 :: real)\<rfloor> + 1) (int 4)
         \<and> numRungs ts = 1
         \<and> rungRanges ts = 0 # replicate 4 (length [3, 3, 3 :: real]))"
proof -
  have fq: "floatQuotient 3 3 = Some 1" by (rule floatQuotient_self) simp
  have l: "0 \<le> log 2 (1 :: real)" "log 2 (1 :: real) < 2 ^ 31 - 1" "log 2 (1 :: real) = 0"
    by simp_all
  have M: "(1::nat) \<le> 4" by simp
  have pos: "(0::real) < 3" by simp
  note t = num_rungs_formula[where lg = "log 2", OF run_example_equal_dt pos fq l M]
  show ?thesis using t run_example_equal_dt fq by simp
qed

text \<open>
  The claim as stated fails on positive time-steps whose quotient overflows the \<open>float\<close>
  range: \<open>min(floor(log2(refDt / minDt)) + 1, maxRungs)\<close> is 4 for \<open>minDt = 2^-100\<close> and
  \<open>refDt = 2^100\<close>, while \<open>numRungs\<close> is \<open>INT_MIN + 1\<close>. It also fails where all groups
  have the time-step zero: \<open>refDt \<le> minDt\<close> holds, but \<open>refDt / minDt\<close> is \<open>0 / 0\<close>,
  nothing clamps it, and \<open>numRungs = 1\<close> does not result.
\<close>

theorem num_rungs_formula_counterexample:
  "computeRungTimestep (log 2) 4 [1 / 2 ^ 100, 2 ^ 100, 2 ^ 100] [] =
     Some (\<lparr>minDt = 1 / 2 ^ 100, numRungs = - 2147483647, substep = 0,
            rungRanges = [0, 3, 3, 3, 3], dt_drift = replicate 4 0\<rparr>,
           [1 / 2 ^ 100, 2 ^ 100, 2 ^ 100], [0, 1, 2])
   \<and> min (\<lfloor>log 2 (2 ^ 100 / (1 / 2 ^ 100) :: real)\<rfloor> + 1) (int 4) = 4
   \<and> computeRungTimestep (log 2) 4 [0, 0] [] =
     Some (\<lparr>minDt = 0, numRungs = - 2147483647, substep = 0,
            rungRanges = [0, 2, 2, 2, 2], dt_drift = replicate 4 0\<rparr>, [0, 0], [0, 1])"
proof -
  have "\<lfloor>log 2 (2 ^ 100 / (1 / 2 ^ 100) :: real)\<rfloor> = int 200"
    by (rule floor_log2_pow) simp_all
  then have "min (\<lfloor>log 2 (2 ^ 100 / (1 / 2 ^ 100) :: real)\<rfloor> + 1) (int 4) = 4" by simp
  then show ?thesis using run_example_overflow run_example_zero by simp
qed

subsection \<open>C4: the rung boundaries\<close>

text \<open>
  Claim C4, as amended. Whenever \<open>computeRungTimestep\<close> returns a \<open>Timestep\<close> (every
  worker holds at least one group) whose \<open>numRungs\<close> is at least 1, for a constant
  \<open>maxNumRungs\<close> of at most 31: \<open>groupDt\<close> is sorted ascending, for each rung \<open>r\<close> in
  \<open>[1, numRungs)\<close> the entry \<open>rungRanges[r]\<close> is the result of the binary search of the
  sorted array for \<open>2^r * minDt\<close>, which is the first index whose value exceeds
  \<open>2^r * minDt\<close>, \<open>rungRanges[0]\<close> is 0 and \<open>rungRanges[numRungs]\<close> is the worker's
  group count.
\<close>

theorem rung_ranges_from_search:
  assumes "computeRungTimestep lg maxNumRungs groupDt peers = Some (ts, sortedDt, groupIndices)"
    and "maxNumRungs \<le> 31" and "1 \<le> numRungs ts"
  shows "sorted sortedDt \<and> rungRanges ts ! 0 = 0
       \<and> (\<forall>r. 1 \<le> r \<and> int r < numRungs ts \<longrightarrow>
             rungRanges ts ! r = lowerBoundGpu sortedDt (2 ^ r * minDt ts)
           \<and> rungRanges ts ! r = firstIndexExceeding sortedDt (2 ^ r * minDt ts))
       \<and> rungRanges ts ! nat (numRungs ts) = length groupDt"
proof -
  from assms(1) obtain mn rf where red: "reducedRange groupDt peers = Some (mn, rf)"
    and mdt: "minDt ts = mn"
    and nr: "numRungs ts = min (intAdd (intLog2Ratio lg rf mn) 1) (int maxNumRungs)"
    and rr: "rungRanges ts =
               rungLoop (sort groupDt) mn (numRungs ts) (0 # replicate maxNumRungs (length groupDt))"
    and ks: "sortedDt = sort groupDt"
    by (rule computeRungTimestep_Some_D)
  have nrM: "numRungs ts \<le> int maxNumRungs" using nr by simp
  have srt: "sorted sortedDt" using ks by simp
  have z: "rungRanges ts ! 0 = 0" unfolding rr by (simp add: rungRanges_nth[OF assms(2) _ nrM])
  have mid: "rungRanges ts ! r = lowerBoundGpu sortedDt (2 ^ r * minDt ts)
           \<and> rungRanges ts ! r = firstIndexExceeding sortedDt (2 ^ r * minDt ts)"
    if "1 \<le> r \<and> int r < numRungs ts" for r
  proof -
    have "r \<le> maxNumRungs" using that nrM by linarith
    then have "rungRanges ts ! r = lowerBoundGpu sortedDt (2 ^ r * minDt ts)"
      unfolding rr using that by (simp add: rungRanges_nth[OF assms(2) _ nrM] ks mdt)
    then show ?thesis
      using lowerBoundGpu_takeWhile[OF srt] by simp
  qed
  have "nat (numRungs ts) \<le> maxNumRungs" using nrM by linarith
  then have last: "rungRanges ts ! nat (numRungs ts) = length groupDt"
    unfolding rr using assms(3) by (simp add: rungRanges_nth[OF assms(2) _ nrM])
  show ?thesis using srt z mid last by blast
qed

text \<open>
  A run of a single worker, with the exact \<open>log2\<close>, in which two groups have the
  time-step \<open>2 * minDt\<close>: they lie before the boundary \<open>rungRanges[1] = 3\<close>.
\<close>

lemma run_example_equal_to_threshold:
  "computeRungTimestep (log 2) 4 [1, 2, 2, 4, 4] [] =
     Some (\<lparr>minDt = 1, numRungs = 2, substep = 0, rungRanges = [0, 3, 5, 5, 5],
            dt_drift = replicate 4 0\<rparr>, [1, 2, 2, 4, 4], [0, 1, 2, 3, 4])"
proof (rule computeRungTimestep_eval[where k = 1 and r = 2 and q = 2])
  show "reducedRange [1, 2, 2, 4, 4] [] = Some (1, 2)"
  proof (rule reducedRange_eval[where others = "[]"])
    show "localRange [1, 2, 2, 4, 4] = Some (1, 2)"
      by (rule localRange_eval[where n = 5 and j = 2 and ks = "[1, 2, 2, 4, 4]"])
         (simp_all add: fastIndex_5)
  qed (simp_all add: mpiAllreduceMin_def)
  show "floatQuotient 2 1 = Some 2" by (simp add: floatQuotient_def round32_2)
  show "2 ^ 1 \<le> (2::real)" "(2::real) < 2 ^ (1 + 1)" by simp_all
  show "min (int 1 + 1) (int 4) = 2" by simp
  show "rungLoop (sort [1, 2, 2, 4, 4]) 1 2 (0 # replicate 4 (length [1, 2, 2, 4, 4 :: real]))
          = [0, 3, 5, 5, 5]" by code_simp
  show "sortGroupDt [1, 2, 2, 4, 4] (length [1, 2, 2, 4, 4 :: real])
          = ([1, 2, 2, 4, 4], [0, 1, 2, 3, 4])" by code_simp
qed

theorem rung_ranges_from_search_witness:
  "computeRungTimestep (log 2) 4 [1, 2, 2, 4, 4] [] =
     Some (\<lparr>minDt = 1, numRungs = 2, substep = 0, rungRanges = [0, 3, 5, 5, 5],
            dt_drift = replicate 4 0\<rparr>, [1, 2, 2, 4, 4], [0, 1, 2, 3, 4])
   \<and> (4::nat) \<le> 31 \<and> (1::int) \<le> 2 \<and> (1::nat) \<le> 1 \<and> int 1 < 2
   \<and> sorted [1, 2, 2, 4, 4 :: real] \<and> [0, 3, 5, 5, 5] ! 0 = (0::nat)
   \<and> [0, 3, 5, 5, 5] ! 1 = lowerBoundGpu [1, 2, 2, 4, 4] (2 ^ 1 * 1)
   \<and> [0, 3, 5, 5, 5] ! 1 = firstIndexExceeding [1, 2, 2, 4, 4] (2 ^ 1 * 1)
   \<and> [0, 3, 5, 5, 5] ! nat 2 = length [1, 2, 2, 4, 4 :: real]"
proof -
  have M: "(4::nat) \<le> 31" by simp
  have n1: "1 \<le> numRungs \<lparr>minDt = 1, numRungs = 2, substep = 0, rungRanges = [0, 3, 5, 5, 5],
            dt_drift = replicate 4 0\<rparr>" by simp
  note t = rung_ranges_from_search[OF run_example_equal_to_threshold M n1]
  from t have imp:
    "(1 \<le> (1::nat) \<and> int 1 < 2 \<longrightarrow>
        [0, 3, 5, 5, 5] ! 1 = lowerBoundGpu [1, 2, 2, 4, 4] (2 ^ 1 * 1)
      \<and> [0, 3, 5, 5, 5] ! 1 = firstIndexExceeding [1, 2, 2, 4, 4] (2 ^ 1 * 1))"
    by (elim conjE allE[of _ "1::nat"]) (simp only: Timestep.simps)
  have c: "[0, 3, 5, 5, 5] ! 1 = lowerBoundGpu [1, 2, 2, 4, 4] (2 ^ 1 * 1)
         \<and> [0, 3, 5, 5, 5] ! 1 = firstIndexExceeding [1, 2, 2, 4, 4] (2 ^ 1 * 1)"
    using imp by (rule mp) simp
  show ?thesis
  proof (intro conjI)
    show "computeRungTimestep (log 2) 4 [1, 2, 2, 4, 4] [] =
      Some (\<lparr>minDt = 1, numRungs = 2, substep = 0, rungRanges = [0, 3, 5, 5, 5],
            dt_drift = replicate 4 0\<rparr>, [1, 2, 2, 4, 4], [0, 1, 2, 3, 4])"
      by (rule run_example_equal_to_threshold)
    show "[0, 3, 5, 5, 5] ! 1 = lowerBoundGpu [1, 2, 2, 4, 4] (2 ^ 1 * 1)"
      using c by (rule conjunct1)
    show "[0, 3, 5, 5, 5] ! 1 = firstIndexExceeding [1, 2, 2, 4, 4] (2 ^ 1 * 1)"
      using c by (rule conjunct2)
  qed simp_all
qed

text \<open>
  The claim as stated has \<open>rungRanges[numRungs]\<close> hold the group count on every run.
  On the worker with the values -8, -1, -1 every operation of the source is defined
  (the quotient is \<open>1 / 8\<close>, \<open>int(log2(1 / 8)) + 1 = -2\<close>) and \<open>numRungs\<close> is -2: the
  array \<open>rungRanges\<close> has no entry at that index, and its entry at 0 is not the group
  count 3. The same holds on the positive time-steps \<open>2^-100, 2^100, 2^100\<close>, whose
  quotient overflows: \<open>numRungs\<close> is \<open>INT_MIN + 1\<close>.
\<close>

theorem rung_ranges_negative_count_counterexample:
  "computeRungTimestep (log 2) 4 [- 8, - 1, - 1] [] =
     Some (\<lparr>minDt = - 8, numRungs = - 2, substep = 0,
            rungRanges = [0, 3, 3, 3, 3], dt_drift = replicate 4 0\<rparr>, [- 8, - 1, - 1], [0, 1, 2])
   \<and> (- 2 :: int) < 0
   \<and> [0, 3, 3, 3, 3] ! nat (- 2) \<noteq> length [- 8, - 1, - 1 :: real]
   \<and> computeRungTimestep (log 2) 4 [1 / 2 ^ 100, 2 ^ 100, 2 ^ 100] [] =
     Some (\<lparr>minDt = 1 / 2 ^ 100, numRungs = - 2147483647, substep = 0,
            rungRanges = [0, 3, 3, 3, 3], dt_drift = replicate 4 0\<rparr>,
           [1 / 2 ^ 100, 2 ^ 100, 2 ^ 100], [0, 1, 2])
   \<and> (- 2147483647 :: int) < 0"
  using run_example_negative run_example_overflow by simp

subsection \<open>C5: the reduced minimum over all workers\<close>

text \<open>
  Claim C5, as amended. When every worker holds at least one group, the minimum that the
  reduction delivers is the minimum of \<open>perGroupDt\<close> over the union of all groups of all
  workers; it is the \<open>minDt\<close> of every \<open>Timestep\<close> that \<open>computeRungTimestep\<close>
  returns, and one is returned when that minimum is positive.
\<close>

theorem reduced_minDt_is_global_minimum:
  assumes "groupDt \<noteq> []" and "[] \<notin> set peers"
  shows "(\<exists>refDt. reducedRange groupDt peers
                    = Some (Min (\<Union> (set ` set (groupDt # peers))), refDt))
       \<and> (\<forall>ts st. computeRungTimestep lg maxNumRungs groupDt peers = Some (ts, st) \<longrightarrow>
                  minDt ts = Min (\<Union> (set ` set (groupDt # peers))))
       \<and> (0 < Min (\<Union> (set ` set (groupDt # peers))) \<longrightarrow>
            (\<exists>ts st. computeRungTimestep lg maxNumRungs groupDt peers = Some (ts, st)
                   \<and> minDt ts = Min (\<Union> (set ` set (groupDt # peers)))))"
proof -
  let ?mn = "Min (\<Union> (set ` set (groupDt # peers)))"
  note red = reducedRange_Some[OF assms]
  have a: "\<exists>refDt. reducedRange groupDt peers = Some (?mn, refDt)" using red by blast
  have b: "minDt ts = ?mn" if "computeRungTimestep lg maxNumRungs groupDt peers = Some (ts, st)" for ts st
  proof -
    obtain ks idx where st: "st = (ks, idx)" by (cases st)
    from that[unfolded st] obtain mn r where "reducedRange groupDt peers = Some (mn, r)" "minDt ts = mn"
      by (rule computeRungTimestep_Some_D)
    then show ?thesis using red by simp
  qed
  have c: "\<exists>ts st. computeRungTimestep lg maxNumRungs groupDt peers = Some (ts, st) \<and> minDt ts = ?mn"
    if "0 < ?mn"
    using computeRungTimestep_defined[OF red, of lg maxNumRungs] by metis
  show ?thesis using a b c by blast
qed

text \<open>Runs with one worker and with three workers; the minimum 2 is held by a peer.\<close>

lemma run_example_single_rung:
  "computeRungTimestep (log 2) 4 [1, 2] [] =
     Some (\<lparr>minDt = 1, numRungs = 1, substep = 0, rungRanges = [0, 2, 2, 2, 2],
            dt_drift = replicate 4 0\<rparr>, [1, 2], [0, 1])"
proof (rule computeRungTimestep_eval[where k = 0 and r = 1 and q = 1])
  show "reducedRange [1, 2] [] = Some (1, 1)"
  proof (rule reducedRange_eval[where others = "[]"])
    show "localRange [1, 2] = Some (1, 1)"
      by (rule localRange_eval[where n = 2 and j = 0 and ks = "[1, 2]"])
         (simp_all add: fastIndex_2)
  qed (simp_all add: mpiAllreduceMin_def)
  show "floatQuotient 1 1 = Some 1" by (rule floatQuotient_self) simp
  show "2 ^ 0 \<le> (1::real)" "(1::real) < 2 ^ (0 + 1)" by simp_all
  show "min (int 0 + 1) (int 4) = 1" by simp
  show "rungLoop (sort [1, 2]) 1 1 (0 # replicate 4 (length [1, 2 :: real])) = [0, 2, 2, 2, 2]"
    by code_simp
  show "sortGroupDt [1, 2] (length [1, 2 :: real]) = ([1, 2], [0, 1])" by code_simp
qed

lemma run_example_three_workers:
  "computeRungTimestep (log 2) 4 [6, 5, 7] [[9, 2, 8], [4, 3]] =
     Some (\<lparr>minDt = 2, numRungs = 1, substep = 0, rungRanges = [0, 3, 3, 3, 3],
            dt_drift = replicate 4 0\<rparr>, [5, 6, 7], [1, 0, 2])"
proof (rule computeRungTimestep_eval[where k = 0 and r = 3 and q = "3 / 2"])
  show "reducedRange [6, 5, 7] [[9, 2, 8], [4, 3]] = Some (2, 3)"
  proof (rule reducedRange_eval[where mine = "(5, 6)" and others = "[(2, 8), (3, 3)]"])
    show "localRange [6, 5, 7] = Some (5, 6)"
      by (rule localRange_eval[where n = 3 and j = 1 and ks = "[5, 6, 7]"])
         (simp_all add: fastIndex_3)
    have "localRange [9, 2, 8] = Some (2, 8)"
      by (rule localRange_eval[where n = 3 and j = 1 and ks = "[2, 8, 9]"])
         (simp_all add: fastIndex_3)
    moreover have "localRange [4, 3] = Some (3, 3)"
      by (rule localRange_eval[where n = 2 and j = 0 and ks = "[3, 4]"])
         (simp_all add: fastIndex_2)
    ultimately show "map localRange [[9, 2, 8], [4, 3]] = map Some [(2, 8), (3, 3)]" by simp
    show "mpiAllreduceMin (5, 6) [(2, 8), (3, 3)] = (2, 3)" by (simp add: mpiAllreduceMin_def)
  qed
  have "round32 (3 / 2) = 3 / 2"
    by (subst round32_eval[where k = 0 and n = "3 * 2 ^ 22"])
       (simp_all add: roundHalfEven_def powr_minus)
  then show "floatQuotient 3 2 = Some (3 / 2)" by (simp add: floatQuotient_def)
  show "2 ^ 0 \<le> (3 / 2 :: real)" "(3 / 2 :: real) < 2 ^ (0 + 1)" by simp_all
  show "min (int 0 + 1) (int 4) = 1" by simp
  show "rungLoop (sort [6, 5, 7]) 2 1 (0 # replicate 4 (length [6, 5, 7 :: real])) = [0, 3, 3, 3, 3]"
    by code_simp
  show "sortGroupDt [6, 5, 7] (length [6, 5, 7 :: real]) = ([5, 6, 7], [1, 0, 2])" by code_simp
qed

theorem reduced_minDt_is_global_minimum_witness:
  "[6, 5, 7 :: real] \<noteq> [] \<and> [] \<notin> set [[9, 2, 8], [4, 3 :: real]]
   \<and> computeRungTimestep (log 2) 4 [6, 5, 7] [[9, 2, 8], [4, 3]] =
     Some (\<lparr>minDt = 2, numRungs = 1, substep = 0, rungRanges = [0, 3, 3, 3, 3],
            dt_drift = replicate 4 0\<rparr>, [5, 6, 7], [1, 0, 2])
   \<and> Min (\<Union> (set ` set ([6, 5, 7] # [[9, 2, 8], [4, 3 :: real]]))) = 2
   \<and> (\<exists>refDt. reducedRange [6, 5, 7] [[9, 2, 8], [4, 3]] = Some (2, refDt))"
proof -
  note t = reduced_minDt_is_global_minimum[of "[6, 5, 7]" "[[9, 2, 8], [4, 3]]" "log 2" 4]
  have h: "[6, 5, 7 :: real] \<noteq> []" "[] \<notin> set [[9, 2, 8], [4, 3 :: real]]" by simp_all
  from t[OF h] have
    "Min (\<Union> (set ` set ([6, 5, 7] # [[9, 2, 8], [4, 3 :: real]]))) = 2"
    using run_example_three_workers by auto
  moreover from t[OF h] have "\<exists>refDt. reducedRange [6, 5, 7] [[9, 2, 8], [4, 3]]
      = Some (Min (\<Union> (set ` set ([6, 5, 7] # [[9, 2, 8], [4, 3 :: real]]))), refDt)"
    by (rule conjunct1)
  ultimately show ?thesis using run_example_three_workers h by simp
qed

text \<open>
  The claim as stated has a worker without groups contribute a positive-infinity
  sentinel, so that the results are those of the other workers. The code has no
  sentinel: \<open>timestepRangeGpu\<close> reads \<open>groupDt[0]\<close> whatever \<open>numGroups\<close> is, and a
  worker without groups has no such element. With such a peer no result is defined,
  while without it \<open>minDt = 1\<close> is returned.
\<close>

theorem zero_group_worker_counterexample:
  "localRange [] = None
   \<and> computeRungTimestep (log 2) 4 [1, 2] [[]] = None
   \<and> computeRungTimestep (log 2) 4 [1, 2] [] =
       Some (\<lparr>minDt = 1, numRungs = 1, substep = 0, rungRanges = [0, 2, 2, 2, 2],
              dt_drift = replicate 4 0\<rparr>, [1, 2], [0, 1])"
proof -
  have "localRange [] = None" by (simp add: localRange_eq)
  moreover have "reducedRange [1, 2] [[]] = None" by (rule reducedRange_None) simp
  then have "computeRungTimestep (log 2) 4 [1, 2] [[]] = None"
    unfolding computeRungTimestep_unfold by simp
  ultimately show ?thesis using run_example_single_rung by simp
qed

subsection \<open>C8: running the scheduler again\<close>

lemma groupDtAfter_sort: "groupDtAfter g = sort g"
  by (simp add: groupDtAfter_def fst_sortGroupDt)

lemma sort_idem: "sort (sort g) = sort g"
  by (simp add: sorted_sort_id)

lemma sort_Nil_iff: "(sort g = []) = (g = [])"
  by (metis length_sort length_0_conv)

lemma localRange_sort: "localRange (sort g) = localRange g"
  by (simp add: localRange_eq sort_idem sort_Nil_iff)

lemma reducedRange_sort:
  "reducedRange (sort g) (map groupDtAfter peers) = reducedRange g peers"
proof -
  have "map localRange (map groupDtAfter peers) = map localRange peers"
    by (simp add: groupDtAfter_sort localRange_sort)
  then show ?thesis unfolding reducedRange_def localRange_sort by (simp only:)
qed

lemma sortGroupDt_sorted:
  assumes "sorted ks"
  shows "sortGroupDt ks (length ks) = (ks, [0..<length ks])"
proof -
  have "sorted (map fst (zip ks [0..<length ks]))" using assms by (simp add: map_fst_zip)
  then have "sort_key fst (zip ks [0..<length ks]) = zip ks [0..<length ks]"
    by (rule sort_key_id_if_sorted)
  then show ?thesis
    by (simp add: sortGroupDt_def sortByKeyGpu_def sequenceGpu_def Let_def map_fst_zip map_snd_zip)
qed

text \<open>
  Claim C8. When \<open>computeRungTimestep\<close> has returned a \<open>Timestep\<close> and left the sorted
  array \<open>groupDt\<close> on every worker, a second run on these arrays returns the same
  \<open>Timestep\<close>, equal in every field, and leaves \<open>groupDt\<close> as it is; \<open>groupIndices\<close>
  is then the identity.
\<close>

theorem rerun_gives_same_timestep:
  assumes "computeRungTimestep lg maxNumRungs groupDt peers = Some (ts, sortedDt, groupIndices)"
  shows "computeRungTimestep lg maxNumRungs sortedDt (map groupDtAfter peers)
           = Some (ts, sortedDt, [0..<length groupDt])"
proof -
  from assms obtain mn r where red: "reducedRange groupDt peers = Some (mn, r)"
    and f: "minDt ts = mn" "numRungs ts = min (intAdd (intLog2Ratio lg r mn) 1) (int maxNumRungs)"
      "rungRanges ts = rungLoop (sort groupDt) mn (numRungs ts)
                         (0 # replicate maxNumRungs (length groupDt))"
      "substep ts = 0" "dt_drift ts = replicate maxNumRungs 0"
    and ks: "sortedDt = sort groupDt"
    by (rule computeRungTimestep_Some_D)
  let ?nR = "min (intAdd (intLog2Ratio lg r mn) 1) (int maxNumRungs)"
  have ts: "ts = \<lparr>minDt = mn, numRungs = ?nR, substep = 0,
             rungRanges = rungLoop (sort groupDt) mn ?nR
                            (0 # replicate maxNumRungs (length groupDt)),
             dt_drift = replicate maxNumRungs 0\<rparr>"
    using f by (intro Timestep.equality) simp_all
  have "computeRungTimestep lg maxNumRungs (sort groupDt) (map groupDtAfter peers) =
      Some (\<lparr>minDt = mn, numRungs = ?nR, substep = 0,
             rungRanges = rungLoop (sort groupDt) mn ?nR
                            (0 # replicate maxNumRungs (length groupDt)),
             dt_drift = replicate maxNumRungs 0\<rparr>,
            sort groupDt, [0..<length groupDt])"
    unfolding computeRungTimestep_unfold reducedRange_sort red
    using sortGroupDt_sorted[of "sort groupDt"] by (simp add: sort_idem)
  then show ?thesis unfolding ks ts .
qed

theorem rerun_gives_same_timestep_witness:
  "computeRungTimestep (log 2) 4 [4, 1, 2, 2, 4] [[8, 3, 16]] =
     Some (\<lparr>minDt = 1, numRungs = 2, substep = 0, rungRanges = [0, 3, 5, 5, 5],
            dt_drift = replicate 4 0\<rparr>, [1, 2, 2, 4, 4], [1, 2, 3, 0, 4])
   \<and> map groupDtAfter [[8, 3, 16]] = [[3, 8, 16]]
   \<and> computeRungTimestep (log 2) 4 [1, 2, 2, 4, 4] [[3, 8, 16]] =
     Some (\<lparr>minDt = 1, numRungs = 2, substep = 0, rungRanges = [0, 3, 5, 5, 5],
            dt_drift = replicate 4 0\<rparr>, [1, 2, 2, 4, 4], [0, 1, 2, 3, 4])"
proof -
  have after: "map groupDtAfter [[8, 3, 16]] = [[3, 8, 16]]" by code_simp
  have idx: "[0..<length [4, 1, 2, 2, 4 :: real]] = [0, 1, 2, 3, 4]" by code_simp
  show ?thesis
    using rerun_gives_same_timestep[OF run_example_two_rungs] run_example_two_rungs
    unfolding after idx by simp
qed

section \<open>Properties of \<open>NbodyProp::step\<close>\<close>

subsection \<open>C6: the global reduction of \<open>step\<close>\<close>

lemma covers_mset: "covers order n \<Longrightarrow> mset (ranks order) = mset [0..<n]"
  unfolding covers_def by (metis mset_sort)

lemma covers_set: "covers order n \<Longrightarrow> set (ranks order) = {0..<n}"
  using covers_mset[of order n] by (metis mset_eq_setD set_upt)

lemma reduce_sum: "reduce (+) sends order = sum_list (map ((!) sends) (ranks order))"
  for sends :: "real list"
  by (induction order) simp_all

lemma reduce_sum_list:
  assumes "covers order (length sends)"
  shows "reduce (+) sends order = sum_list (sends :: real list)"
proof -
  have "sum_list (map ((!) sends) (ranks order)) = sum_mset (image_mset ((!) sends) (mset (ranks order)))"
    by (simp only: sum_mset_sum_list[symmetric] mset_map)
  also have "\<dots> = sum_mset (image_mset ((!) sends) (mset [0..<length sends]))"
    using covers_mset[OF assms] by simp
  also have "\<dots> = sum_list (map ((!) sends) [0..<length sends])"
    by (simp only: sum_mset_sum_list[symmetric] mset_map)
  also have "\<dots> = sum_list sends" by (simp only: map_nth)
  finally show ?thesis unfolding reduce_sum .
qed

lemma reduce_exact:
  "exactAdditions add sends order \<Longrightarrow> reduce add sends order = reduce (+) sends order"
  by (induction order) simp_all

lemma ranks_ne: "ranks order \<noteq> []"
  by (induction order) simp_all

lemma reduce_max: "reduce max sends order = Max (set (map ((!) sends) (ranks order)))"
  for sends :: "64 word list"
proof (induction order)
  case (Rank i)
  then show ?case by simp
next
  case (Combine l r)
  have ne: "ranks l \<noteq> []" "ranks r \<noteq> []" by (rule ranks_ne)+
  have "Max (set (map ((!) sends) (ranks l)) \<union> set (map ((!) sends) (ranks r)))
          = max (Max (set (map ((!) sends) (ranks l)))) (Max (set (map ((!) sends) (ranks r))))"
    using ne by (intro Max_Un) simp_all
  then show ?case using Combine by simp
qed

lemma reduce_max_set:
  assumes "covers order (length sends)"
  shows "reduce max sends order = Max (set (sends :: 64 word list))"
proof -
  have "set (map ((!) sends) (ranks order)) = (!) sends ` {0..<length sends}"
    using covers_set[OF assms] by simp
  also have "\<dots> = set sends" by (metis map_nth set_map set_upt)
  finally show ?thesis unfolding reduce_max by simp
qed

text \<open>
  Claim C6, as amended. After the global reduction, on the root worker (rank 0) the
  stored \<open>egrav\<close> is the result of adding the partial potential energies of all workers,
  each once, by the \<open>double\<close> additions of the reduction in the order in which the
  library combines them; when none of these additions rounds, this is the sum over all
  workers. \<open>maxP2Pglobal\<close> is the maximum of the workers' particle-particle counters,
  in whatever order. On any other worker the reduction writes nothing: the stored
  \<open>egrav\<close> is the 0 that \<open>globalEnergy\<close> was initialised with, and \<open>maxP2Pglobal\<close> has
  no value.
\<close>

theorem global_reduction_at_root:
  assumes "covers orderE (length egravs)" and "covers orderP (length maxP2P)"
  shows "globalReduction add orderE orderP rank egravs maxP2P d =
           (if rank = rootRank
            then (d\<lparr>egrav := reduce add egravs orderE\<rparr>, Some (Max (set maxP2P)))
            else (d\<lparr>egrav := 0\<rparr>, None))
       \<and> (exactAdditions add egravs orderE \<longrightarrow> reduce add egravs orderE = sum_list egravs)"
proof
  show "globalReduction add orderE orderP rank egravs maxP2P d =
           (if rank = rootRank
            then (d\<lparr>egrav := reduce add egravs orderE\<rparr>, Some (Max (set maxP2P)))
            else (d\<lparr>egrav := 0\<rparr>, None))"
    using reduce_max_set[OF assms(2)] by (simp add: globalReduction_def MPI_Reduce_def Let_def)
  show "exactAdditions add egravs orderE \<longrightarrow> reduce add egravs orderE = sum_list egravs"
    using reduce_sum_list[OF assms(1)] by (simp add: reduce_exact)
qed

text \<open>Additions of \<open>double\<close> values that are exact, and one that rounds.\<close>

lemma doubleAdd_exact: "doubleAdd (- 1) (- 2) = - 3" "doubleAdd (- 3) (- 3) = - 6"
  "doubleAdd 1 0 = 1" "doubleAdd 10000000000000000 (- 10000000000000000) = 0"
proof -
  show "doubleAdd (- 1) (- 2) = - 3"
    unfolding doubleAdd_def
    by (subst round64_eval[where k = 1 and n = "- 3 * 2 ^ 51"])
       (simp_all add: roundHalfEven_def powr_minus)
  show "doubleAdd (- 3) (- 3) = - 6"
    unfolding doubleAdd_def
    by (subst round64_eval[where k = 2 and n = "- 3 * 2 ^ 51"])
       (simp_all add: roundHalfEven_def powr_minus)
  show "doubleAdd 1 0 = 1"
    unfolding doubleAdd_def
    by (subst round64_eval[where k = 0 and n = "2 ^ 52"])
       (simp_all add: roundHalfEven_def powr_minus)
  show "doubleAdd 10000000000000000 (- 10000000000000000) = 0"
    by (simp add: doubleAdd_def round64_def roundFloat_def)
qed

lemma doubleAdd_rounds: "doubleAdd 1 10000000000000000 = 10000000000000000"
  unfolding doubleAdd_def
  by (subst round64_eval[where k = 53 and n = "5000000000000000"])
     (simp_all add: roundHalfEven_def powr_minus)

text \<open>
  Three workers with the energies -1, -2, -3 and the counters 10, 25, 7; the energies
  are combined as \<open>(e0 + e1) + e2\<close>, the counters as \<open>max(c2, max(c0, c1))\<close>.
\<close>

theorem global_reduction_at_root_witness:
  "covers (Combine (Combine (Rank 0) (Rank 1)) (Rank 2)) (length [- 1, - 2, - 3 :: real])
   \<and> covers (Combine (Rank 2) (Combine (Rank 0) (Rank 1))) (length [10, 25, 7 :: 64 word])
   \<and> exactAdditions doubleAdd [- 1, - 2, - 3] (Combine (Combine (Rank 0) (Rank 1)) (Rank 2))
   \<and> globalReduction doubleAdd (Combine (Combine (Rank 0) (Rank 1)) (Rank 2))
        (Combine (Rank 2) (Combine (Rank 0) (Rank 1))) 0 [- 1, - 2, - 3] [10, 25, 7] exampleParticles
       = (exampleParticles\<lparr>egrav := - 6\<rparr>, Some 25)
   \<and> globalReduction doubleAdd (Combine (Combine (Rank 0) (Rank 1)) (Rank 2))
        (Combine (Rank 2) (Combine (Rank 0) (Rank 1))) 2 [- 1, - 2, - 3] [10, 25, 7] exampleParticles
       = (exampleParticles\<lparr>egrav := 0\<rparr>, None)
   \<and> reduce doubleAdd [- 1, - 2, - 3] (Combine (Combine (Rank 0) (Rank 1)) (Rank 2))
       = sum_list [- 1, - 2, - 3]"
proof -
  let ?oE = "Combine (Combine (Rank 0) (Rank 1)) (Rank 2)"
  let ?oP = "Combine (Rank 2) (Combine (Rank 0) (Rank 1))"
  have cE: "covers ?oE (length [- 1, - 2, - 3 :: real])" unfolding covers_def by code_simp
  have cP: "covers ?oP (length [10, 25, 7 :: 64 word])" unfolding covers_def by code_simp
  have ex: "exactAdditions doubleAdd [- 1, - 2, - 3] ?oE" by (simp add: doubleAdd_exact)
  note t0 = global_reduction_at_root[OF cE cP, of doubleAdd 0 exampleParticles]
  note t2 = global_reduction_at_root[OF cE cP, of doubleAdd 2 exampleParticles]
  have a: "globalReduction doubleAdd ?oE ?oP 0 [- 1, - 2, - 3] [10, 25, 7] exampleParticles
       = (exampleParticles\<lparr>egrav := - 6\<rparr>, Some 25)"
    using conjunct1[OF t0] by (simp add: rootRank_def doubleAdd_exact)
  have b: "globalReduction doubleAdd ?oE ?oP 2 [- 1, - 2, - 3] [10, 25, 7] exampleParticles
       = (exampleParticles\<lparr>egrav := 0\<rparr>, None)"
    using conjunct1[OF t2] by (simp add: rootRank_def)
  have c: "reduce doubleAdd [- 1, - 2, - 3] ?oE = sum_list [- 1, - 2, - 3]"
    using conjunct2[OF t0] ex by (rule mp)
  show ?thesis using cE cP ex a b c by (intro conjI)
qed

text \<open>
  The claim as stated fails in two ways. For the stored \<open>egrav\<close> of a worker, it fails
  on rank 1 of the three workers above: the sum is -6, the stored value is 0. And on
  rank 0 the stored value depends on the order of the reduction, even among the orders
  that keep the ranks in sequence: for the energies \<open>1, 10^16, -10^16\<close>, whose sum is
  1, the order \<open>(e0 + e1) + e2\<close> stores 0 and the order \<open>e0 + (e1 + e2)\<close> stores 1.
\<close>

theorem egrav_reduction_counterexample:
  "globalReduction doubleAdd (Combine (Combine (Rank 0) (Rank 1)) (Rank 2))
        (Combine (Combine (Rank 0) (Rank 1)) (Rank 2)) 1 [- 1, - 2, - 3] [10, 25, 7] exampleParticles
     = (exampleParticles\<lparr>egrav := 0\<rparr>, None)
   \<and> sum_list [- 1, - 2, - 3 :: real] = - 6
   \<and> covers (Combine (Combine (Rank 0) (Rank 1)) (Rank 2)) 3
   \<and> covers (Combine (Rank 0) (Combine (Rank 1) (Rank 2))) 3
   \<and> egrav (fst (globalReduction doubleAdd (Combine (Combine (Rank 0) (Rank 1)) (Rank 2))
        (Combine (Combine (Rank 0) (Rank 1)) (Rank 2)) 0 [1, 10 ^ 16, - (10 ^ 16)] [10, 25, 7]
        exampleParticles)) = 0
   \<and> egrav (fst (globalReduction doubleAdd (Combine (Rank 0) (Combine (Rank 1) (Rank 2)))
        (Combine (Combine (Rank 0) (Rank 1)) (Rank 2)) 0 [1, 10 ^ 16, - (10 ^ 16)] [10, 25, 7]
        exampleParticles)) = 1
   \<and> sum_list [1, 10 ^ 16, - (10 ^ 16) :: real] = 1"
proof -
  have c1: "covers (Combine (Combine (Rank 0) (Rank 1)) (Rank 2)) 3"
    unfolding covers_def by code_simp
  have c2: "covers (Combine (Rank 0) (Combine (Rank 1) (Rank 2))) 3"
    unfolding covers_def by code_simp
  have r1: "reduce doubleAdd [1, 10 ^ 16, - (10 ^ 16)] (Combine (Combine (Rank 0) (Rank 1)) (Rank 2)) = 0"
    by (simp add: doubleAdd_rounds doubleAdd_exact)
  have r2: "reduce doubleAdd [1, 10 ^ 16, - (10 ^ 16)] (Combine (Rank 0) (Combine (Rank 1) (Rank 2))) = 1"
    by (simp add: doubleAdd_exact)
  have e1: "egrav (fst (globalReduction doubleAdd (Combine (Combine (Rank 0) (Rank 1)) (Rank 2))
        (Combine (Combine (Rank 0) (Rank 1)) (Rank 2)) 0 [1, 10 ^ 16, - (10 ^ 16)] [10, 25, 7]
        exampleParticles)) = 0"
    unfolding globalReduction_def MPI_Reduce_def rootRank_def Let_def
    by (simp only: if_True r1) simp
  have e2: "egrav (fst (globalReduction doubleAdd (Combine (Rank 0) (Combine (Rank 1) (Rank 2)))
        (Combine (Combine (Rank 0) (Rank 1)) (Rank 2)) 0 [1, 10 ^ 16, - (10 ^ 16)] [10, 25, 7]
        exampleParticles)) = 1"
    unfolding globalReduction_def MPI_Reduce_def rootRank_def Let_def
    by (simp only: if_True r2) simp
  have z: "globalReduction doubleAdd (Combine (Combine (Rank 0) (Rank 1)) (Rank 2))
        (Combine (Combine (Rank 0) (Rank 1)) (Rank 2)) 1 [- 1, - 2, - 3] [10, 25, 7] exampleParticles
     = (exampleParticles\<lparr>egrav := 0\<rparr>, None)"
    by (simp add: globalReduction_def MPI_Reduce_def rootRank_def Let_def)
  have s: "sum_list [- 1, - 2, - 3 :: real] = - 6" "sum_list [1, 10 ^ 16, - (10 ^ 16) :: real] = 1"
    by simp_all
  show ?thesis using z s c1 c2 e1 e2 by (intro conjI)
qed

subsection \<open>C7: resize and pad\<close>

lemma fill_Some:
  "first \<le> lastIdx \<Longrightarrow> lastIdx \<le> length v \<Longrightarrow>
   fill v first lastIdx val = Some (take first v @ replicate (lastIdx - first) val @ drop lastIdx v)"
  by (simp add: fill_def)

lemma fill_nth:
  assumes "fill v first lastIdx val = Some v'" and "i < length v"
  shows "length v' = length v"
    and "v' ! i = (if first \<le> i \<and> i < lastIdx then val else v ! i)"
proof -
  have b: "first \<le> lastIdx" "lastIdx \<le> length v"
    and v': "v' = take first v @ replicate (lastIdx - first) val @ drop lastIdx v"
    using assms(1) by (auto simp: fill_def split: if_splits)
  show "length v' = length v" using b by (simp add: v')
  show "v' ! i = (if first \<le> i \<and> i < lastIdx then val else v ! i)"
    using b assms(2) by (auto simp: v' nth_append)
qed

lemma resizeVector_length: "length (resizeVector v n) = n"
  by (simp add: resizeVector_def)

lemma resizeVector_nth: "i < n \<Longrightarrow> i < length v \<Longrightarrow> resizeVector v n ! i = v ! i"
  by (simp add: resizeVector_def nth_append)

text \<open>
  Claim C7. Let \<open>first\<close> be the index of an existing particle, inside the length with
  halos, and \<open>last\<close> at most that length. After the resize-and-pad phase the mass array
  has the length with halos, every entry at an index in \<open>[0, first)\<close> or in
  \<open>[last, nParticlesWithHalos)\<close> is the mass that was stored at \<open>first\<close> before the
  phase, and the masses of the owned particles are unchanged.
\<close>

theorem pad_replicates_first_mass:
  assumes "startIndex domain < length (m d0)"
    and "startIndex domain < nParticlesWithHalos domain"
    and "endIndex domain \<le> nParticlesWithHalos domain"
  shows "\<exists>d'. resizeAndPad domain d0 = Some d'
       \<and> length (m d') = nParticlesWithHalos domain
       \<and> (\<forall>i. i < startIndex domain \<or> (endIndex domain \<le> i \<and> i < nParticlesWithHalos domain) \<longrightarrow>
              m d' ! i = m d0 ! startIndex domain)
       \<and> (\<forall>i. startIndex domain \<le> i \<and> i < endIndex domain \<and> i < length (m d0) \<longrightarrow>
              m d' ! i = m d0 ! i)"
proof -
  let ?n = "nParticlesWithHalos domain"
  let ?f = "startIndex domain"
  let ?l = "endIndex domain"
  let ?d = "resize d0 ?n"
  let ?v = "m d0 ! ?f"
  have md: "m ?d = resizeVector (m d0) ?n" by (simp add: resize_def)
  have len: "length (m ?d) = ?n" by (simp add: md resizeVector_length)
  have v1: "readAt (m ?d) ?f = Some ?v"
    using assms(1,2) by (simp add: readAt_def len) (simp add: md resizeVector_nth)
  obtain m1 where m1: "fill (m ?d) 0 ?f ?v = Some m1"
    using assms(2) len by (simp add: fill_def)
  note n1 = fill_nth[OF m1]
  have len1: "length m1 = ?n" using n1(1)[of 0] assms(2) len by simp
  have "m1 ! ?f = m ?d ! ?f" using n1(2)[of ?f] assms(2) len by simp
  then have v2: "readAt m1 ?f = Some ?v"
    using assms(1,2) by (simp add: readAt_def len1 md resizeVector_nth)
  obtain m2 where m2: "fill m1 ?l ?n ?v = Some m2"
    using assms(3) len1 by (simp add: fill_def)
  note n2 = fill_nth[OF m2]
  have run: "resizeAndPad domain d0 = Some (?d\<lparr>m := m2\<rparr>)"
    by (simp add: resizeAndPad_def Let_def v1 m1 v2 m2)
  have len2: "length m2 = ?n" using n2(1)[of 0] assms(2) len1 by simp
  have pad: "m2 ! i = ?v" if "i < ?f \<or> (?l \<le> i \<and> i < ?n)" for i
  proof -
    have i: "i < ?n" using that assms(2) by auto
    show ?thesis
    proof (cases "?l \<le> i")
      case True
      then show ?thesis using n2(2)[of i] i len1 by simp
    next
      case False
      then have "i < ?f" using that by simp
      then show ?thesis using n2(2)[of i] n1(2)[of i] i len1 len False by simp
    qed
  qed
  have own: "m2 ! i = m d0 ! i" if "?f \<le> i \<and> i < ?l \<and> i < length (m d0)" for i
  proof -
    have i: "i < ?n" using that assms(3) by simp
    have "m2 ! i = m1 ! i" using n2(2)[of i] i len1 that by simp
    also have "\<dots> = m ?d ! i" using n1(2)[of i] i len that by simp
    also have "\<dots> = m d0 ! i" using i that by (simp add: md resizeVector_nth)
    finally show ?thesis .
  qed
  show ?thesis using run len2 pad own by simp
qed

text \<open>The example of the specification: \<open>first = 5\<close>, \<open>last = 20\<close>, 25 particles with halos.\<close>

theorem pad_replicates_first_mass_witness:
  "startIndex exampleDomain < length (ParticlesData.m exampleParticles)
   \<and> startIndex exampleDomain < nParticlesWithHalos exampleDomain
   \<and> endIndex exampleDomain \<le> nParticlesWithHalos exampleDomain
   \<and> ParticlesData.m exampleParticles ! 5 = 5
   \<and> (\<exists>d'. resizeAndPad exampleDomain exampleParticles = Some d'
          \<and> length (ParticlesData.m d') = 25
          \<and> ParticlesData.m d' ! 0 = 5 \<and> ParticlesData.m d' ! 4 = 5
          \<and> ParticlesData.m d' ! 20 = 5 \<and> ParticlesData.m d' ! 24 = 5
          \<and> ParticlesData.m d' ! 7 = 7)"
proof -
  have h: "startIndex exampleDomain < length (ParticlesData.m exampleParticles)"
    "startIndex exampleDomain < nParticlesWithHalos exampleDomain"
    "endIndex exampleDomain \<le> nParticlesWithHalos exampleDomain"
    by (simp_all add: exampleDomain_def exampleParticles_def)
  have v: "ParticlesData.m exampleParticles ! 5 = 5" "ParticlesData.m exampleParticles ! 7 = 7"
    by (simp_all add: exampleParticles_def)
  from pad_replicates_first_mass[OF h] obtain d' where
    run: "resizeAndPad exampleDomain exampleParticles = Some d'"
    and len: "length (ParticlesData.m d') = nParticlesWithHalos exampleDomain"
    and pad: "\<And>i. i < startIndex exampleDomain
                \<or> (endIndex exampleDomain \<le> i \<and> i < nParticlesWithHalos exampleDomain) \<Longrightarrow>
              ParticlesData.m d' ! i = ParticlesData.m exampleParticles ! startIndex exampleDomain"
    and own: "\<And>i. startIndex exampleDomain \<le> i \<and> i < endIndex exampleDomain
                 \<and> i < length (ParticlesData.m exampleParticles) \<Longrightarrow>
              ParticlesData.m d' ! i = ParticlesData.m exampleParticles ! i"
    by blast
  have s: "startIndex exampleDomain = 5" "endIndex exampleDomain = 20"
    "nParticlesWithHalos exampleDomain = 25" "length (ParticlesData.m exampleParticles) = 25"
    by (simp_all add: exampleDomain_def exampleParticles_def)
  have "ParticlesData.m d' ! 0 = 5" "ParticlesData.m d' ! 4 = 5"
    "ParticlesData.m d' ! 20 = 5" "ParticlesData.m d' ! 24 = 5"
    using pad[of 0] pad[of 4] pad[of 20] pad[of 24] v(1) by (simp_all add: s)
  moreover have "ParticlesData.m d' ! 7 = 7" using own[of 7] v(2) by (simp add: s)
  ultimately show ?thesis using h v(1) run len s(3) by simp
qed

section \<open>Properties of \<open>MomentumSquarePatch::compute\<close>\<close>

subsection \<open>C9: the result does not depend on \<open>iteration\<close>\<close>

lemma neighborInside_iteration [simp]:
  "neighborInside (s\<lparr>iteration := a\<rparr>) i nid = neighborInside s i nid"
  by (simp add: neighborInside_def)

lemma neighborTerm_iteration:
  "neighborTerm kn (s\<lparr>iteration := a\<rparr>) i nid = neighborTerm kn (s\<lparr>iteration := b\<rparr>) i nid"
  by (simp add: neighborTerm_def Let_def)

lemma neighborLoop_iteration:
  "neighborLoop kn (s\<lparr>iteration := a\<rparr>) i nids acc
     = neighborLoop kn (s\<lparr>iteration := b\<rparr>) i nids acc"
proof (induction nids arbitrary: acc)
  case Nil
  show ?case by simp
next
  case (Cons nid nids)
  show ?case
    by (simp add: Cons.IH neighborTerm_iteration[where a = a and b = b] split: prod.splits)
qed

text \<open>
  Claim C9. For every particle index \<open>i\<close> and every two values \<open>a\<close> and \<open>b\<close> of
  \<open>iteration\<close>, with all other members equal, \<open>compute(i)\<close> leaves the same arrays
  \<open>grad_P_x\<close>, \<open>grad_P_y\<close> and \<open>grad_P_z\<close> (and fails for the one value exactly when it
  fails for the other): \<open>force_i_j_r\<close> is set to zero only after its last use.
\<close>

theorem compute_independent_of_iteration:
  "map_option gradP (compute kn (s\<lparr>iteration := a\<rparr>) i)
     = map_option gradP (compute kn (s\<lparr>iteration := b\<rparr>) i)"
proof -
  have loop: "neighborLoop kn (s\<lparr>iteration := a\<rparr>) i (elem (neighbors s) i) (0, 0, 0)
     = neighborLoop kn (s\<lparr>iteration := b\<rparr>) i (elem (neighbors s) i) (0, 0, 0)"
    by (rule neighborLoop_iteration)
  show ?thesis
    by (simp add: compute_def loop gradP_def split: option.splits prod.splits)
qed

text \<open>Two particles that are neighbours of each other, before and after \<open>init_timesteps\<close>.\<close>

theorem compute_independent_of_iteration_witness:
  "compute exampleKernels (examplePatch\<lparr>iteration := 0\<rparr>) 0 \<noteq> None
   \<and> map_option gradP (compute exampleKernels (examplePatch\<lparr>iteration := 0\<rparr>) 0)
       = map_option gradP (compute exampleKernels (examplePatch\<lparr>iteration := 100\<rparr>) 0)"
proof -
  have "compute exampleKernels (examplePatch\<lparr>iteration := 0\<rparr>) 0 \<noteq> None"
    by (simp add: compute_def examplePatch_def inside_def elem_def neighborInside_def
        split: prod.splits)
  then show ?thesis
    using compute_independent_of_iteration[where kn = exampleKernels and s = examplePatch
        and i = 0 and a = 0 and b = 100] by simp
qed

section \<open>Properties of \<open>computeDensity\<close>\<close>

subsection \<open>C10: what \<open>computeDensity\<close> writes and what it leaves\<close>

lemma xmassLoop_spec:
  assumes "\<forall>i \<in> set js. i < length xmv"
  shows "\<exists>xmv'. xmassLoop X other ms js xmv = Some xmv' \<and> length xmv' = length xmv
           \<and> (\<forall>i. i < length xmv \<longrightarrow>
                 xmv' ! i = (if i \<in> set js then X other ms i else xmv ! i))"
  using assms
proof (induction js arbitrary: xmv)
  case Nil
  show ?case by simp
next
  case (Cons j js)
  have j: "j < length xmv" using Cons.prems by simp
  have "\<forall>i \<in> set js. i < length (xmv[j := X other ms j])" using Cons.prems by simp
  from Cons.IH[OF this] obtain xmv' where
    run: "xmassLoop X other ms js (xmv[j := X other ms j]) = Some xmv'"
    and len: "length xmv' = length xmv"
    and nth: "\<forall>i. i < length xmv \<longrightarrow>
                xmv' ! i = (if i \<in> set js then X other ms i else xmv[j := X other ms j] ! i)"
    by auto
  have "xmassLoop X other ms (j # js) xmv = Some xmv'" using j run by simp
  moreover have "\<forall>i. i < length xmv \<longrightarrow>
       xmv' ! i = (if i \<in> set (j # js) then X other ms i else xmv ! i)"
    using nth j by (auto simp: nth_list_update)
  ultimately show ?case using len by blast
qed

lemma convertLoop_spec:
  assumes "distinct js" and "\<forall>i \<in> set js. i < length rhov \<and> i < length ms"
  shows "\<exists>rhov'. convertLoop js ms rhov = Some rhov' \<and> length rhov' = length rhov
           \<and> (\<forall>i. i < length rhov \<longrightarrow>
                 rhov' ! i = (if i \<in> set js then ms ! i / rhov ! i else rhov ! i))"
  using assms
proof (induction js arbitrary: rhov)
  case Nil
  show ?case by simp
next
  case (Cons j js)
  have j: "j < length rhov" "j < length ms" "j \<notin> set js" using Cons.prems by simp_all
  let ?r = "rhov[j := ms ! j / rhov ! j]"
  have "distinct js" "\<forall>i \<in> set js. i < length ?r \<and> i < length ms" using Cons.prems by simp_all
  from Cons.IH[OF this] obtain rhov' where
    run: "convertLoop js ms ?r = Some rhov'"
    and len: "length rhov' = length rhov"
    and nth: "\<forall>i. i < length rhov \<longrightarrow>
                rhov' ! i = (if i \<in> set js then ms ! i / ?r ! i else ?r ! i)"
    by auto
  have "convertLoop (j # js) ms rhov = Some rhov'" using j run by simp
  moreover have "\<forall>i. i < length rhov \<longrightarrow>
       rhov' ! i = (if i \<in> set (j # js) then ms ! i / rhov ! i else rhov ! i)"
    using nth j by (auto simp: nth_list_update)
  ultimately show ?case using len by blast
qed

text \<open>
  Claim C10. When the range ends inside the arrays \<open>rho\<close> and \<open>m\<close>, \<open>computeDensity\<close>
  returns, and for every \<open>i\<close> in \<open>[startIndex, endIndex)\<close> the new \<open>rho[i]\<close> is
  \<open>m[i] / X i\<close>, where \<open>X i\<close> is the x-mass that \<open>computeXMass\<close> computes for particle
  \<open>i\<close>; the array \<open>xm\<close>, every entry of \<open>rho\<close> outside the range, the masses and the
  rest of the data set are as before the call.
\<close>

theorem computeDensity_frame:
  assumes "endIdx \<le> length (rho d)" and "endIdx \<le> length (m d)"
  shows "\<exists>d'. computeDensity X startIdx endIdx d = Some d'
       \<and> (\<forall>i. startIdx \<le> i \<and> i < endIdx \<longrightarrow>
              rho d' ! i = m d ! i / X (ParticlesData.more d) (m d) i)
       \<and> xm d' = xm d \<and> length (rho d') = length (rho d)
       \<and> (\<forall>i. i < length (rho d) \<and> \<not> (startIdx \<le> i \<and> i < endIdx) \<longrightarrow> rho d' ! i = rho d ! i)
       \<and> m d' = m d \<and> ParticlesData.more d' = ParticlesData.more d"
proof -
  let ?js = "[startIdx..<endIdx]"
  let ?X = "X (ParticlesData.more d) (m d)"
  have "\<forall>i \<in> set ?js. i < length (rho d)" using assms(1) by simp
  from xmassLoop_spec[OF this, of X "ParticlesData.more d" "m d"] obtain xmv where
    xrun: "xmassLoop X (ParticlesData.more d) (m d) ?js (rho d) = Some xmv"
    and xlen: "length xmv = length (rho d)"
    and xnth: "\<forall>i. i < length (rho d) \<longrightarrow> xmv ! i = (if i \<in> set ?js then ?X i else rho d ! i)"
    by blast
  have d1: "computeXMass X startIdx endIdx (swapXmRho d) = Some ((swapXmRho d)\<lparr>xm := xmv\<rparr>)"
    using xrun by (simp add: computeXMass_def swapXmRho_def)
  let ?d2 = "swapXmRho ((swapXmRho d)\<lparr>xm := xmv\<rparr>)"
  have d2: "?d2 = d\<lparr>rho := xmv\<rparr>" by (simp add: swapXmRho_def)
  have "distinct ?js" "\<forall>i \<in> set ?js. i < length xmv \<and> i < length (m d)"
    using assms xlen by simp_all
  from convertLoop_spec[OF this] obtain rhov where
    crun: "convertLoop ?js (m d) xmv = Some rhov"
    and clen: "length rhov = length xmv"
    and cnth: "\<forall>i. i < length xmv \<longrightarrow> rhov ! i = (if i \<in> set ?js then m d ! i / xmv ! i else xmv ! i)"
    by blast
  have run: "computeDensity X startIdx endIdx d = Some (d\<lparr>rho := rhov\<rparr>)"
    unfolding computeDensity_def d1 by (simp add: d2 crun Let_def)
  have inr: "rho (d\<lparr>rho := rhov\<rparr>) ! i = m d ! i / ?X i" if "startIdx \<le> i \<and> i < endIdx" for i
  proof -
    have "i < length (rho d)" using that assms(1) by simp
    then show ?thesis using that xnth cnth xlen by simp
  qed
  have outr: "rho (d\<lparr>rho := rhov\<rparr>) ! i = rho d ! i"
    if "i < length (rho d) \<and> \<not> (startIdx \<le> i \<and> i < endIdx)" for i
    using that xnth cnth xlen by auto
  show ?thesis using run inr outr clen xlen by auto
qed

text \<open>Four particles, the range \<open>[1, 3)\<close>.\<close>

theorem computeDensity_frame_witness:
  "3 \<le> length (rho exampleDensityData) \<and> 3 \<le> length (ParticlesData.m exampleDensityData)
   \<and> computeDensity exampleXMass 1 3 exampleDensityData
       = Some (exampleDensityData\<lparr>rho := [1, 2, 2, 1]\<rparr>)
   \<and> (\<exists>d'. computeDensity exampleXMass 1 3 exampleDensityData = Some d'
          \<and> rho d' ! 1 = ParticlesData.m exampleDensityData ! 1 / exampleXMass () (ParticlesData.m exampleDensityData) 1
          \<and> xm d' = xm exampleDensityData
          \<and> rho d' ! 0 = rho exampleDensityData ! 0)"
proof -
  have h: "3 \<le> length (rho exampleDensityData)" "3 \<le> length (ParticlesData.m exampleDensityData)"
    by (simp_all add: exampleDensityData_def)
  have upt: "[Suc 0..<3] = [Suc 0, 2]" by (simp add: upt_rec)
  have run: "computeDensity exampleXMass 1 3 exampleDensityData
       = Some (exampleDensityData\<lparr>rho := [1, 2, 2, 1]\<rparr>)"
    by (simp add: computeDensity_def computeXMass_def swapXmRho_def exampleDensityData_def
        exampleXMass_def upt Let_def)
  from computeDensity_frame[OF h, of exampleXMass 1] obtain d' where
    d': "computeDensity exampleXMass 1 3 exampleDensityData = Some d'"
    and inr: "\<And>i. 1 \<le> i \<and> i < 3 \<Longrightarrow>
       rho d' ! i = ParticlesData.m exampleDensityData ! i
                      / exampleXMass (ParticlesData.more exampleDensityData) (ParticlesData.m exampleDensityData) i"
    and xmeq: "xm d' = xm exampleDensityData"
    and outr: "\<And>i. i < length (rho exampleDensityData) \<and> \<not> (1 \<le> i \<and> i < 3) \<Longrightarrow>
       rho d' ! i = rho exampleDensityData ! i"
    by blast
  have "rho d' ! 1 = ParticlesData.m exampleDensityData ! 1 / exampleXMass () (ParticlesData.m exampleDensityData) 1"
    using inr[of 1] by simp
  moreover have "rho d' ! 0 = rho exampleDensityData ! 0" using outr[of 0] by (simp add: exampleDensityData_def)
  ultimately show ?thesis using h run d' xmeq by blast
qed

end
